theory Spec2Isabelle
  imports
    Complex_Main
    "HOL-Library.Char_ord"
    "HOL-Library.List_Lexorder"
    "HOL-Library.Sublist"
begin

section \<open>Python values and built-ins used by the sources\<close>

text \<open>
  The sources are \<^verbatim>\<open>src/utils/ffmpeg_utils.py\<close> and \<^verbatim>\<open>src/workers/processors.py\<close>.
  Conventions of the embedding:
  \<^item> a Python \<^verbatim>\<open>str\<close> is a \<open>string\<close>; its characters are the code points below 256;
  \<^item> a finite Python \<^verbatim>\<open>float\<close> is the rational number it denotes, and arithmetic on
    floats is exact arithmetic on rationals (no rounding);
  \<^item> an exception is a value \<open>Inl e\<close> of a sum type, a normal return is \<open>Inr v\<close>;
  \<^item> built-ins of Python whose tables are not part of the repository
    (\<^verbatim>\<open>str.upper\<close>, \<^verbatim>\<open>str(float)\<close>, \<^verbatim>\<open>float(str)\<close>, \<^verbatim>\<open>int(str)\<close>) are the fields of a
    record \<open>pybuiltins\<close> that the functions using them take as their first argument.
\<close>

datatype py_exception =
    ValueError
  | TypeError
  | AttributeError
  | ZeroDivisionError
  | OverflowError
  | OSError
  | UnicodeDecodeError
  | CalledProcessError int

datatype pyfloat = Finite rat | PosInf | NegInf | NaN

datatype pyval =
    VNone
  | VBool bool
  | VInt int
  | VFloat pyfloat
  | VStr string

record pybuiltins =
  upper :: "string \<Rightarrow> string"
  float_str :: "pyfloat \<Rightarrow> string"
  float_of_str :: "string \<Rightarrow> pyfloat option"
  int_of_str :: "string \<Rightarrow> int option"

type_synonym settings = "string \<rightharpoonup> pyval"

text \<open>\<^verbatim>\<open>d.get(k, default)\<close> and \<^verbatim>\<open>d.get(k)\<close>.\<close>

definition dict_get :: "settings \<Rightarrow> string \<Rightarrow> pyval \<Rightarrow> pyval" where
  "dict_get d k dflt = (case d k of None \<Rightarrow> dflt | Some v \<Rightarrow> v)"

definition dict_get1 :: "settings \<Rightarrow> string \<Rightarrow> pyval" where
  "dict_get1 d k = dict_get d k VNone"

text \<open>Truth value of an object, as \<^verbatim>\<open>if x\<close>, \<^verbatim>\<open>x or y\<close> test it.\<close>

fun truthy :: "pyval \<Rightarrow> bool" where
  "truthy VNone = False"
| "truthy (VBool b) = b"
| "truthy (VInt i) = (i \<noteq> 0)"
| "truthy (VFloat f) = (f \<noteq> Finite 0)"
| "truthy (VStr s) = (s \<noteq> [])"

subsection \<open>Characters and strings\<close>

definition NL :: string where
  "NL = [CHR 0x0A]"

text \<open>\<^verbatim>\<open>str.isspace\<close> on one character, for the code points below 256.\<close>

definition isspace :: "char \<Rightarrow> bool" where
  "isspace c = (c \<in> set [CHR 0x09, CHR 0x0A, CHR 0x0B, CHR 0x0C, CHR 0x0D,
                          CHR 0x1C, CHR 0x1D, CHR 0x1E, CHR 0x1F, CHR 0x20,
                          CHR 0x85, CHR 0xA0])"

text \<open>\<^verbatim>\<open>s.strip()\<close>: leading and trailing whitespace removed.\<close>

definition strip :: "string \<Rightarrow> string" where
  "strip s = rev (dropWhile isspace (rev (dropWhile isspace s)))"

text \<open>\<^verbatim>\<open>s.lstrip('#')\<close>: every leading occurrence of the given character removed.\<close>

definition lstrip_char :: "char \<Rightarrow> string \<Rightarrow> string" where
  "lstrip_char c s = dropWhile (\<lambda>x. x = c) s"

text \<open>
  \<^verbatim>\<open>s.split()\<close>: the maximal runs of non-whitespace characters, in order. The first
  argument of \<open>split_acc\<close> is the word being read.
\<close>

fun split_acc :: "string \<Rightarrow> string \<Rightarrow> string list" where
  "split_acc w [] = (if w = [] then [] else [w])"
| "split_acc w (c # cs) =
     (if isspace c then (if w = [] then split_acc [] cs else w # split_acc [] cs)
      else split_acc (w @ [c]) cs)"

definition split :: "string \<Rightarrow> string list" where
  "split s = split_acc [] s"

text \<open>\<^verbatim>\<open>sep.join(xs)\<close>.\<close>

fun join :: "string \<Rightarrow> string list \<Rightarrow> string" where
  "join sep [] = []"
| "join sep [x] = x"
| "join sep (x # y # ys) = x @ sep @ join sep (y # ys)"

text \<open>
  \<^verbatim>\<open>s.replace(old, new)\<close> for a non-empty \<open>old\<close>: the occurrences of \<open>old\<close> are replaced
  from left to right, without overlap.
\<close>

fun replace :: "string \<Rightarrow> string \<Rightarrow> string \<Rightarrow> string" where
  "replace old new [] = []"
| "replace old new (c # cs) =
     (if old \<noteq> [] \<and> take (length old) (c # cs) = old
      then new @ replace old new (drop (length old) (c # cs))
      else c # replace old new cs)"

text \<open>\<^verbatim>\<open>s[i:j]\<close> for \<open>0 \<le> i \<le> j\<close>.\<close>

definition slice :: "nat \<Rightarrow> nat \<Rightarrow> 'a list \<Rightarrow> 'a list" where
  "slice i j xs = take (j - i) (drop i xs)"

subsection \<open>Numbers as text\<close>

definition digit_char :: "nat \<Rightarrow> char" where
  "digit_char d = ''0123456789'' ! d"

function str_nat :: "nat \<Rightarrow> string" where
  "str_nat n = (if n < 10 then [digit_char n] else str_nat (n div 10) @ [digit_char (n mod 10)])"
  by pat_completeness auto
termination
  by (relation "measure id") auto

declare str_nat.simps [simp del]

text \<open>\<^verbatim>\<open>str(i)\<close> and \<^verbatim>\<open>f"{i}"\<close> for an \<^verbatim>\<open>int\<close>.\<close>

definition str_int :: "int \<Rightarrow> string" where
  "str_int i = (if i < 0 then ''-'' @ str_nat (nat (- i)) else str_nat (nat i))"

definition zfill :: "nat \<Rightarrow> string \<Rightarrow> string" where
  "zfill w s = replicate (w - length s) (CHR ''0'') @ s"

text \<open>
  \<^verbatim>\<open>f"{i:02}"\<close>, \<^verbatim>\<open>f"{i:02d}"\<close>, \<^verbatim>\<open>f"{i:03}"\<close>: decimal, padded with zeros to the width
  \<open>w\<close>; the sign, when there is one, counts in the width and comes before the zeros.
\<close>

definition fmt0 :: "nat \<Rightarrow> int \<Rightarrow> string" where
  "fmt0 w i = (if i < 0 then ''-'' @ zfill (w - 1) (str_nat (nat (- i)))
               else zfill w (str_nat (nat i)))"

text \<open>\<^verbatim>\<open>int(x)\<close> for a finite float: truncation towards zero.\<close>

definition int_trunc :: "rat \<Rightarrow> int" where
  "int_trunc x = (if 0 \<le> x then \<lfloor>x\<rfloor> else \<lceil>x\<rceil>)"

text \<open>\<^verbatim>\<open>x // y\<close> and \<^verbatim>\<open>x % y\<close> on floats, for \<open>y > 0\<close>; \<^verbatim>\<open>divmod(x, y)\<close> is the pair.\<close>

definition floordiv :: "rat \<Rightarrow> rat \<Rightarrow> int" where
  "floordiv x y = \<lfloor>x / y\<rfloor>"

definition fmod :: "rat \<Rightarrow> rat \<Rightarrow> rat" where
  "fmod x y = x - y * of_int (floordiv x y)"

text \<open>\<^verbatim>\<open>str(v)\<close>, which is what an f-string field \<^verbatim>\<open>{v}\<close> renders.\<close>

fun py_str :: "pybuiltins \<Rightarrow> pyval \<Rightarrow> string" where
  "py_str py VNone = ''None''"
| "py_str py (VBool b) = (if b then ''True'' else ''False'')"
| "py_str py (VInt i) = str_int i"
| "py_str py (VFloat f) = float_str py f"
| "py_str py (VStr s) = s"

text \<open>\<^verbatim>\<open>int(v)\<close>.\<close>

fun py_int :: "pybuiltins \<Rightarrow> pyval \<Rightarrow> py_exception + int" where
  "py_int py VNone = Inl TypeError"
| "py_int py (VBool b) = Inr (if b then 1 else 0)"
| "py_int py (VInt i) = Inr i"
| "py_int py (VFloat (Finite r)) = Inr (int_trunc r)"
| "py_int py (VFloat PosInf) = Inl OverflowError"
| "py_int py (VFloat NegInf) = Inl OverflowError"
| "py_int py (VFloat NaN) = Inl ValueError"
| "py_int py (VStr s) = (case int_of_str py s of None \<Rightarrow> Inl ValueError | Some i \<Rightarrow> Inr i)"

text \<open>
  \<^verbatim>\<open>range(start, stop, step)\<close> as a list. A zero step raises \<^verbatim>\<open>ValueError\<close>.
\<close>

function range_up :: "int \<Rightarrow> int \<Rightarrow> int \<Rightarrow> int list" where
  "range_up i stop step =
     (if 0 < step \<and> i < stop then i # range_up (i + step) stop step else [])"
  by pat_completeness auto
termination
  by (relation "measure (\<lambda>(i, stop, step). nat (stop - i))") auto

function range_down :: "int \<Rightarrow> int \<Rightarrow> int \<Rightarrow> int list" where
  "range_down i stop step =
     (if step < 0 \<and> stop < i then i # range_down (i + step) stop step else [])"
  by pat_completeness auto
termination
  by (relation "measure (\<lambda>(i, stop, step). nat (i - stop))") auto

declare range_up.simps [simp del] range_down.simps [simp del]

definition py_range :: "int \<Rightarrow> int \<Rightarrow> int \<Rightarrow> py_exception + int list" where
  "py_range start stop step =
     (if step = 0 then Inl ValueError
      else if 0 < step then Inr (range_up start stop step)
      else Inr (range_down start stop step))"

section \<open>Timestamps\<close>

text \<open>
  \<^verbatim>\<open>format_time\<close> (\<^verbatim>\<open>ffmpeg_utils.py\<close>, lines 63 to 77):
  \<^verbatim>\<open>hours, remainder = divmod(seconds, 3600); minutes, secs = divmod(remainder, 60);
  milliseconds = int((secs - int(secs)) * 1000)\<close>.
\<close>

definition format_time :: "rat \<Rightarrow> string" where
  "format_time seconds =
     (let hours = floordiv seconds 3600;
          remainder = fmod seconds 3600;
          minutes = floordiv remainder 60;
          secs = fmod remainder 60;
          milliseconds = int_trunc ((secs - of_int (int_trunc secs)) * 1000)
      in fmt0 2 hours @ '':'' @ fmt0 2 minutes @ '':'' @ fmt0 2 (int_trunc secs)
           @ '','' @ fmt0 3 milliseconds)"

text \<open>\<^verbatim>\<open>format_time_ass\<close> (lines 80 to 94).\<close>

definition format_time_ass :: "rat \<Rightarrow> string" where
  "format_time_ass seconds =
     (let h = floordiv seconds 3600;
          m = floordiv (fmod seconds 3600) 60;
          s = int_trunc (fmod seconds 60);
          cs = int_trunc ((seconds - of_int (int_trunc seconds)) * 100)
      in str_int h @ '':'' @ fmt0 2 m @ '':'' @ fmt0 2 s @ ''.'' @ fmt0 2 cs)"

section \<open>Segment chunker and the two serializers\<close>

record segment =
  seg_start :: rat
  seg_end :: rat
  seg_text :: string

text \<open>
  Lines 112 to 120 of \<^verbatim>\<open>write_srt\<close>, the same as lines 201 to 210 of \<^verbatim>\<open>write_ass\<close>:
  the chunk texts of a segment text that has been stripped already.
\<close>

definition chunk_texts :: "int \<Rightarrow> string \<Rightarrow> py_exception + string list" where
  "chunk_texts max_words_per_line text =
     (let words = split text in
      if int (length words) \<le> max_words_per_line then Inr [text]
      else
        (case py_range 0 (int (length words)) max_words_per_line of
           Inl e \<Rightarrow> Inl e
         | Inr is \<Rightarrow>
             Inr (map (\<lambda>i. join '' '' (slice (nat i) (nat (i + max_words_per_line)) words)) is)))"

text \<open>
  Lines 121 to 124 (and 213 to 216): the interval of every chunk. Dividing by the number
  of chunks raises \<^verbatim>\<open>ZeroDivisionError\<close> when there is none.
\<close>

definition timed_chunks :: "rat \<Rightarrow> rat \<Rightarrow> string list \<Rightarrow> py_exception + (rat \<times> rat \<times> string) list" where
  "timed_chunks start end chunks =
     (let duration = end - start in
      if chunks = [] then Inl ZeroDivisionError
      else
        (let chunk_duration = duration / of_nat (length chunks) in
         Inr (map (\<lambda>(idx, chunk).
                     (start + of_nat idx * chunk_duration,
                      start + (of_nat idx + 1) * chunk_duration,
                      chunk))
                (enumerate 0 chunks))))"

text \<open>The chunker of one segment, as \<^verbatim>\<open>write_srt\<close> runs it (lines 109 to 124).\<close>

definition segment_chunks :: "int \<Rightarrow> segment \<Rightarrow> py_exception + (rat \<times> rat \<times> string) list" where
  "segment_chunks max_words_per_line seg =
     (case chunk_texts max_words_per_line (strip (seg_text seg)) of
        Inl e \<Rightarrow> Inl e
      | Inr chunks \<Rightarrow> timed_chunks (seg_start seg) (seg_end seg) chunks)"

definition srt_block :: "nat \<Rightarrow> rat \<times> rat \<times> string \<Rightarrow> string" where
  "srt_block counter c =
     (case c of (chunk_start, chunk_end, chunk) \<Rightarrow>
        str_int (int counter) @ NL @ format_time chunk_start @ '' --> ''
          @ format_time chunk_end @ NL @ chunk @ NL)"

text \<open>The loop of \<^verbatim>\<open>write_srt\<close> over the segments; \<open>counter\<close> is the running block number.\<close>

fun srt_blocks :: "int \<Rightarrow> nat \<Rightarrow> segment list \<Rightarrow> py_exception + string list" where
  "srt_blocks max_words_per_line counter [] = Inr []"
| "srt_blocks max_words_per_line counter (seg # segs) =
     (case segment_chunks max_words_per_line seg of
        Inl e \<Rightarrow> Inl e
      | Inr cs \<Rightarrow>
          (case srt_blocks max_words_per_line (counter + length cs) segs of
             Inl e \<Rightarrow> Inl e
           | Inr rest \<Rightarrow>
               Inr (map (\<lambda>(idx, c). srt_block idx c) (enumerate counter cs) @ rest)))"

definition write_srt :: "segment list \<Rightarrow> int \<Rightarrow> py_exception + string" where
  "write_srt subtitles max_words_per_line =
     (case srt_blocks max_words_per_line 1 subtitles of
        Inl e \<Rightarrow> Inl e
      | Inr srt_output \<Rightarrow> Inr (join NL srt_output))"

text \<open>
  \<^verbatim>\<open>hex_to_ass_color\<close> inside \<^verbatim>\<open>write_ass\<close> (lines 159 to 163). A value that is not a
  \<^verbatim>\<open>str\<close> has no \<^verbatim>\<open>lstrip\<close>: \<^verbatim>\<open>AttributeError\<close>. Slices of a short string are short.
\<close>

definition hex_to_ass_color :: "pyval \<Rightarrow> string \<Rightarrow> py_exception + string" where
  "hex_to_ass_color hex_color alpha =
     (case hex_color of
        VStr s \<Rightarrow>
          (let h = lstrip_char (CHR ''#'') s;
               r = slice 0 2 h; g = slice 2 4 h; b = slice 4 6 h
           in Inr (''&H'' @ alpha @ b @ g @ r))
      | _ \<Rightarrow> Inl AttributeError)"

definition write_ass_default_settings :: settings where
  "write_ass_default_settings = map_of
     [(''font-size'', VInt 32),
      (''primary-color'', VStr ''#FFFFFF''),
      (''highlight-color'', VStr ''#FFFF00''),
      (''outline-color'', VStr ''#000000''),
      (''shadow-color'', VStr ''#000000''),
      (''outline-width'', VInt 3),
      (''shadow-offset'', VInt 2),
      (''y'', VInt 960),
      (''font-family'', VStr ''Arial Black''),
      (''bold'', VBool True),
      (''highlight-position'', VStr ''last'')]"

text \<open>The \<^verbatim>\<open>Style:\<close> line of the header (line 188).\<close>

definition ass_style_line :: "pybuiltins \<Rightarrow> settings \<Rightarrow> string \<Rightarrow> string \<Rightarrow> string" where
  "ass_style_line py settings primary_color outline_color =
     ''Style: Default,'' @ py_str py (dict_get settings ''font-family'' (VStr ''Arial Black''))
       @ '','' @ py_str py (dict_get settings ''font-size'' (VInt 32))
       @ '','' @ primary_color @ '',&H000000FF,'' @ outline_color @ '',&H00000000,''
       @ (if truthy (dict_get1 settings ''bold'') then ''-1'' else ''0'')
       @ '',0,0,0,100,100,0,0,3,''
       @ py_str py (dict_get settings ''outline-width'' (VInt 3))
       @ '','' @ py_str py (dict_get settings ''shadow-offset'' (VInt 2))
       @ '',2,40,40,'' @ py_str py (dict_get settings ''y'' (VInt 960)) @ '',1''"

text \<open>The header (lines 178 to 192): every line ends with a newline.\<close>

definition ass_header :: "pybuiltins \<Rightarrow> settings \<Rightarrow> string \<Rightarrow> string \<Rightarrow> string" where
  "ass_header py settings primary_color outline_color =
     concat (map (\<lambda>l. l @ NL)
       [''[Script Info]'',
        ''Title: Subtitles'',
        ''ScriptType: v4.00+'',
        ''WrapStyle: 0'',
        ''PlayResX: 1080'',
        ''PlayResY: 1920'',
        ''ScaledBorderAndShadow: yes'',
        [],
        ''[V4+ Styles]'',
        ''Format: Name, Fontname, Fontsize, PrimaryColour, SecondaryColour, OutlineColour, BackColour, Bold, Italic, Underline, StrikeOut, ScaleX, ScaleY, Spacing, Angle, BorderStyle, Outline, Shadow, Alignment, MarginL, MarginR, MarginV, Encoding'',
        ass_style_line py settings primary_color outline_color,
        [],
        ''[Events]'',
        ''Format: Layer, Start, End, Style, Name, MarginL, MarginR, MarginV, Effect, Text''])"

text \<open>
  Lines 230 to 236: whether the word at \<open>word_idx\<close> of a chunk of \<open>n\<close> words is the
  highlighted one. \<^verbatim>\<open>isinstance(x, int)\<close> holds of an \<^verbatim>\<open>int\<close> and of a \<^verbatim>\<open>bool\<close>, and
  \<^verbatim>\<open>True == 1\<close>, \<^verbatim>\<open>False == 0\<close>.
\<close>

definition should_highlight :: "pyval \<Rightarrow> nat \<Rightarrow> nat \<Rightarrow> bool" where
  "should_highlight highlight_pos n word_idx =
     (if highlight_pos = VStr ''first'' \<and> word_idx = 0 then True
      else if highlight_pos = VStr ''last'' \<and> int word_idx = int n - 1 then True
      else (case highlight_pos of
              VInt k \<Rightarrow> int word_idx = k
            | VBool b \<Rightarrow> int word_idx = (if b then 1 else 0)
            | _ \<Rightarrow> False))"

text \<open>The escape that wraps the highlighted word (line 239).\<close>

definition highlight_word :: "string \<Rightarrow> string \<Rightarrow> string \<Rightarrow> string" where
  "highlight_word highlight_color primary_color word =
     [CHR ''{'', CHR 0x5C, CHR ''c''] @ highlight_color @ ''}'' @ word
       @ [CHR ''{'', CHR 0x5C, CHR ''c''] @ primary_color @ ''}''"

text \<open>Lines 226 to 241: the list \<^verbatim>\<open>formatted_words\<close> of a chunk's words.\<close>

definition formatted_words :: "string \<Rightarrow> string \<Rightarrow> pyval \<Rightarrow> string list \<Rightarrow> string list" where
  "formatted_words highlight_color primary_color highlight_pos words_in_chunk =
     map (\<lambda>(word_idx, word).
            if should_highlight highlight_pos (length words_in_chunk) word_idx
            then highlight_word highlight_color primary_color word
            else word)
       (enumerate 0 words_in_chunk)"

text \<open>Lines 222 to 245: the text of the event of one chunk.\<close>

definition formatted_text :: "string \<Rightarrow> string \<Rightarrow> pyval \<Rightarrow> string \<Rightarrow> string" where
  "formatted_text highlight_color primary_color highlight_pos chunk =
     (let words_in_chunk = split chunk in
      if length words_in_chunk > 0
      then join '' '' (formatted_words highlight_color primary_color highlight_pos words_in_chunk)
      else chunk)"

definition dialogue_line :: "string \<Rightarrow> string \<Rightarrow> pyval \<Rightarrow> rat \<times> rat \<times> string \<Rightarrow> string" where
  "dialogue_line highlight_color primary_color highlight_pos c =
     (case c of (chunk_start, chunk_end, chunk) \<Rightarrow>
        ''Dialogue: 0,'' @ format_time_ass chunk_start @ '','' @ format_time_ass chunk_end
          @ '',Default,,0,0,0,,''
          @ formatted_text highlight_color primary_color highlight_pos chunk @ NL)"

text \<open>The loop of \<^verbatim>\<open>write_ass\<close> over the segments (lines 195 to 247).\<close>

fun ass_events ::
  "pybuiltins \<Rightarrow> string \<Rightarrow> string \<Rightarrow> pyval \<Rightarrow> int \<Rightarrow> segment list \<Rightarrow> py_exception + string" where
  "ass_events py highlight_color primary_color highlight_pos max_words_per_line [] = Inr []"
| "ass_events py highlight_color primary_color highlight_pos max_words_per_line (seg # segs) =
     (case chunk_texts max_words_per_line (upper py (strip (seg_text seg))) of
        Inl e \<Rightarrow> Inl e
      | Inr chunks \<Rightarrow>
          (case timed_chunks (seg_start seg) (seg_end seg) chunks of
             Inl e \<Rightarrow> Inl e
           | Inr cs \<Rightarrow>
               (case ass_events py highlight_color primary_color highlight_pos
                       max_words_per_line segs of
                  Inl e \<Rightarrow> Inl e
                | Inr rest \<Rightarrow>
                    Inr (concat (map (dialogue_line highlight_color primary_color highlight_pos) cs)
                           @ rest))))"

definition write_ass ::
  "pybuiltins \<Rightarrow> segment list \<Rightarrow> int \<Rightarrow> settings option \<Rightarrow> py_exception + string" where
  "write_ass py subtitles max_words_per_line settings_arg =
     (let settings = (case settings_arg of None \<Rightarrow> write_ass_default_settings | Some d \<Rightarrow> d) in
      case hex_to_ass_color (dict_get settings ''primary-color'' (VStr ''#FFFFFF'')) ''00'' of
        Inl e \<Rightarrow> Inl e
      | Inr primary_color \<Rightarrow>
      case hex_to_ass_color (dict_get settings ''highlight-color'' (VStr ''#FFFF00'')) ''00'' of
        Inl e \<Rightarrow> Inl e
      | Inr highlight_color \<Rightarrow>
      case hex_to_ass_color (dict_get settings ''outline-color'' (VStr ''#000000'')) ''00'' of
        Inl e \<Rightarrow> Inl e
      | Inr outline_color \<Rightarrow>
      case ass_events py highlight_color primary_color
             (dict_get settings ''highlight-position'' (VStr ''last''))
             max_words_per_line subtitles of
        Inl e \<Rightarrow> Inl e
      | Inr events \<Rightarrow> Inr (ass_header py settings primary_color outline_color @ events))"

section \<open>Media probes\<close>

datatype completed_process =
  CompletedProcess (returncode: int) (stdout: string) (stderr: string)

text \<open>
  What launching a child process and capturing its output gives: an exception when it
  cannot be started or its output cannot be decoded, its exit status and output otherwise.
\<close>

type_synonym probe = "string list \<Rightarrow> py_exception + completed_process"

text \<open>\<^verbatim>\<open>subprocess.run(cmd, capture_output=True, text=True, check=...)\<close>.\<close>

definition subprocess_run :: "probe \<Rightarrow> bool \<Rightarrow> string list \<Rightarrow> py_exception + completed_process" where
  "subprocess_run proc check cmd =
     (case proc cmd of
        Inl e \<Rightarrow> Inl e
      | Inr result \<Rightarrow>
          if check \<and> returncode result \<noteq> 0 then Inl (CalledProcessError (returncode result))
          else Inr result)"

text \<open>
  \<^verbatim>\<open>try: ... except Exception as e: ...\<close>. Every constructor of \<open>py_exception\<close> is a
  subclass of \<^verbatim>\<open>Exception\<close>.
\<close>

definition try_except :: "py_exception + 'a \<Rightarrow> (py_exception \<Rightarrow> py_exception + 'a) \<Rightarrow> py_exception + 'a" where
  "try_except body handler = (case body of Inl e \<Rightarrow> handler e | Inr v \<Rightarrow> Inr v)"

text \<open>\<^verbatim>\<open>video_has_audio\<close> (lines 8 to 33); \<open>audio_probe_cmd\<close> is its \<^verbatim>\<open>cmd\<close>.\<close>

definition audio_probe_cmd :: "string \<Rightarrow> string list" where
  "audio_probe_cmd video_path =
     [''ffprobe'', ''-v'', ''error'', ''-select_streams'', ''a:0'',
      ''-show_entries'', ''stream=codec_type'',
      ''-of'', ''default=noprint_wrappers=1:nokey=1'', video_path]"

definition video_has_audio :: "probe \<Rightarrow> string \<Rightarrow> py_exception + bool" where
  "video_has_audio proc video_path =
     try_except
       (case subprocess_run proc False (audio_probe_cmd video_path) of
          Inl e \<Rightarrow> Inl e
        | Inr result \<Rightarrow> Inr (strip (stdout result) = ''audio''))
       (\<lambda>e. Inr False)"

text \<open>\<^verbatim>\<open>get_video_duration\<close> (lines 36 to 60); \<open>duration_probe_cmd\<close> is its \<^verbatim>\<open>cmd\<close>.\<close>

definition duration_probe_cmd :: "string \<Rightarrow> string list" where
  "duration_probe_cmd video_path =
     [''ffprobe'', ''-v'', ''error'', ''-show_entries'', ''format=duration'',
      ''-of'', ''default=noprint_wrappers=1:nokey=1'', video_path]"

definition get_video_duration :: "pybuiltins \<Rightarrow> probe \<Rightarrow> string \<Rightarrow> py_exception + pyfloat" where
  "get_video_duration py proc video_path =
     try_except
       (case subprocess_run proc True (duration_probe_cmd video_path) of
          Inl e \<Rightarrow> Inl e
        | Inr result \<Rightarrow>
            (case float_of_str py (strip (stdout result)) of
               None \<Rightarrow> Inl ValueError
             | Some duration \<Rightarrow> Inr duration))
       (\<lambda>e. Inr (Finite 5))"

section \<open>Burning subtitles in\<close>

text \<open>
  The files are a map from paths to contents. \<^verbatim>\<open>ffmpeg\<close> is a parameter: given the
  argument vector and the files, it raises or completes, and leaves the files changed.
\<close>

type_synonym files = "string \<rightharpoonup> string"

type_synonym process = "string list \<Rightarrow> files \<Rightarrow> (py_exception + completed_process) \<times> files"

definition burn_default_settings :: settings where
  "burn_default_settings = map_of
     [(''font-size'', VInt 32),
      (''primary-color'', VStr ''#FFFFFF''),
      (''highlight-color'', VStr ''#FFFF00''),
      (''outline-color'', VStr ''#000000''),
      (''shadow-color'', VStr ''#000000''),
      (''outline-width'', VInt 3),
      (''shadow-offset'', VInt 2),
      (''max-words-per-line'', VInt 3),
      (''y'', VInt 960),
      (''font-family'', VStr ''Arial Black''),
      (''bold'', VBool True),
      (''highlight-position'', VStr ''last''),
      (''use-ass'', VBool True)]"

text \<open>
  Line 287: \<^verbatim>\<open>settings.get("use-ass", False) or settings.get("highlight-position") is not None\<close>.
\<close>

definition use_ass :: "settings \<Rightarrow> bool" where
  "use_ass settings =
     (truthy (dict_get settings ''use-ass'' (VBool False))
      \<or> dict_get1 settings ''highlight-position'' \<noteq> VNone)"

text \<open>Lines 291 and 344: the path of the temporary subtitle file.\<close>

definition ass_path_of :: "string \<Rightarrow> string" where
  "ass_path_of video_path = replace ''.mp4'' ''_temp.ass'' video_path"

definition srt_path_of :: "string \<Rightarrow> string" where
  "srt_path_of video_path = replace ''.mp4'' ''_temp.srt'' video_path"

text \<open>Lines 304 and 349: \<^verbatim>\<open>path.replace("\\", "/").replace(":", "\\:")\<close>.\<close>

definition escape_path :: "string \<Rightarrow> string" where
  "escape_path p = replace '':'' [CHR 0x5C, CHR '':''] (replace [CHR 0x5C] ''/'' p)"

text \<open>\<^verbatim>\<open>subprocess.run(cmd, capture_output=True, text=True, check=True)\<close> on the files.\<close>

definition run_checked :: "process \<Rightarrow> string list \<Rightarrow> files \<Rightarrow> (py_exception + completed_process) \<times> files" where
  "run_checked proc cmd fs =
     (case proc cmd fs of
        (Inl e, fs') \<Rightarrow> (Inl e, fs')
      | (Inr result, fs') \<Rightarrow>
          if returncode result \<noteq> 0 then (Inl (CalledProcessError (returncode result)), fs')
          else (Inr result, fs'))"

definition ffmpeg_cmd :: "string \<Rightarrow> string \<Rightarrow> string \<Rightarrow> string list" where
  "ffmpeg_cmd video_path vf output_path =
     [''ffmpeg'', ''-y'', ''-threads'', ''0'', ''-i'', video_path, ''-vf'', vf,
      ''-c:v'', ''libx264'', ''-preset'', ''ultrafast'', ''-crf'', ''23'',
      ''-c:a'', ''copy'', output_path]"

text \<open>\<^verbatim>\<open>hex_to_ass_color\<close> inside the line-format branch (lines 352 to 355).\<close>

definition hex_to_ass_color_srt :: "pyval \<Rightarrow> py_exception + string" where
  "hex_to_ass_color_srt hex_color =
     (case hex_color of
        VStr s \<Rightarrow>
          (let h = lstrip_char (CHR ''#'') s;
               r = slice 0 2 h; g = slice 2 4 h; b = slice 4 6 h
           in Inr (''&H00'' @ b @ g @ r))
      | _ \<Rightarrow> Inl AttributeError)"

text \<open>
  Lines 357 to 375: the value of \<^verbatim>\<open>subtitle_filter\<close>. The colours are converted first,
  \<^verbatim>\<open>int(settings.get('y', 50))\<close> is evaluated last; each of them can raise.
\<close>

definition subtitle_filter :: "pybuiltins \<Rightarrow> settings \<Rightarrow> string \<Rightarrow> py_exception + string" where
  "subtitle_filter py settings srt_path_escaped =
     (case hex_to_ass_color_srt
             (dict_get settings ''primary-color''
                (dict_get settings ''word-color'' (VStr ''#FFFFFF''))) of
        Inl e \<Rightarrow> Inl e
      | Inr primary_color \<Rightarrow>
      case hex_to_ass_color_srt (dict_get settings ''outline-color'' (VStr ''#000000'')) of
        Inl e \<Rightarrow> Inl e
      | Inr outline_color \<Rightarrow>
      case hex_to_ass_color_srt (dict_get settings ''shadow-color'' (VStr ''#000000'')) of
        Inl e \<Rightarrow> Inl e
      | Inr shadow_color \<Rightarrow>
      case py_int py (dict_get settings ''y'' (VInt 50)) of
        Inl e \<Rightarrow> Inl e
      | Inr y \<Rightarrow>
          Inr (''subtitles='' @ srt_path_escaped @ '':force_style='' @ [CHR 0x27]
               @ ''FontName='' @ py_str py (dict_get settings ''font-family'' (VStr ''Montserrat-Bold'')) @ '',''
               @ ''FontSize='' @ py_str py (dict_get settings ''font-size'' (VInt 10)) @ '',''
               @ ''Bold=1,''
               @ ''PrimaryColour='' @ primary_color @ '',''
               @ ''OutlineColour='' @ outline_color @ '',''
               @ ''BackColour='' @ shadow_color @ '',''
               @ ''BorderStyle=1,''
               @ ''Outline='' @ py_str py (dict_get settings ''outline-width'' (VFloat (Finite (1/2)))) @ '',''
               @ ''Shadow='' @ py_str py (dict_get settings ''shadow-offset'' (VFloat (Finite (3/10)))) @ '',''
               @ ''Alignment=2,''
               @ ''MarginV='' @ str_int y @ [CHR 0x27]))"

text \<open>
  The styled branch (lines 291 to 341): the subtitle text is written to \<open>ass_path\<close>,
  \<^verbatim>\<open>ffmpeg\<close> runs, and the \<^verbatim>\<open>finally\<close> clause removes \<open>ass_path\<close> on every way out.
\<close>

definition burn_ass :: "process \<Rightarrow> files \<Rightarrow> string \<Rightarrow> string \<Rightarrow> string \<Rightarrow> (py_exception + unit) \<times> files" where
  "burn_ass ffmpeg fs video_path srt_text output_path =
     (let ass_path = ass_path_of video_path;
          fs1 = fs(ass_path \<mapsto> srt_text);
          ass_path_escaped = escape_path ass_path;
          cmd = ffmpeg_cmd video_path (''subtitles='' @ ass_path_escaped) output_path
      in case run_checked ffmpeg cmd fs1 of
           (Inl e, fs2) \<Rightarrow> (Inl e, fs2(ass_path := None))
         | (Inr result, fs2) \<Rightarrow> (Inr (), fs2(ass_path := None)))"

text \<open>The line-format branch (lines 344 to 412).\<close>

definition burn_srt ::
  "pybuiltins \<Rightarrow> process \<Rightarrow> files \<Rightarrow> string \<Rightarrow> string \<Rightarrow> string \<Rightarrow> settings \<Rightarrow> (py_exception + unit) \<times> files" where
  "burn_srt py ffmpeg fs video_path srt_text output_path settings =
     (let srt_path = srt_path_of video_path;
          fs1 = fs(srt_path \<mapsto> srt_text);
          srt_path_escaped = escape_path srt_path
      in case subtitle_filter py settings srt_path_escaped of
           Inl e \<Rightarrow> (Inl e, fs1(srt_path := None))
         | Inr vf \<Rightarrow>
             (case run_checked ffmpeg (ffmpeg_cmd video_path vf output_path) fs1 of
                (Inl e, fs2) \<Rightarrow> (Inl e, fs2(srt_path := None))
              | (Inr result, fs2) \<Rightarrow> (Inr (), fs2(srt_path := None))))"

text \<open>\<^verbatim>\<open>burn_subtitles\<close> (lines 252 to 412).\<close>

definition burn_subtitles ::
  "pybuiltins \<Rightarrow> process \<Rightarrow> files \<Rightarrow> string \<Rightarrow> string \<Rightarrow> string \<Rightarrow> settings option \<Rightarrow> (py_exception + unit) \<times> files" where
  "burn_subtitles py ffmpeg fs video_path srt_text output_path settings_arg =
     (let settings = (case settings_arg of None \<Rightarrow> burn_default_settings | Some d \<Rightarrow> d) in
      if use_ass settings then burn_ass ffmpeg fs video_path srt_text output_path
      else burn_srt py ffmpeg fs video_path srt_text output_path settings)"

section \<open>The cache of the transcription model\<close>

text \<open>
  \<^verbatim>\<open>processors.py\<close>, lines 25 to 43. The two globals are the first two fields; the field
  \<open>load_calls\<close> records, in order, the sizes \<^verbatim>\<open>whisper.load_model\<close> has been called with.
  The loader is a parameter: it raises or returns a model.
\<close>

record 'm model_cache =
  whisper_model_cache :: "'m option"
  whisper_model_size :: "string option"
  load_calls :: "string list"

definition initial_cache :: "'m model_cache" where
  "initial_cache = \<lparr>whisper_model_cache = None, whisper_model_size = None, load_calls = []\<rparr>"

definition load_whisper_model ::
  "(string \<Rightarrow> py_exception + 'm) \<Rightarrow> string \<Rightarrow> 'm model_cache \<Rightarrow> (py_exception + 'm option) \<times> 'm model_cache" where
  "load_whisper_model load_model model_size st =
     (if whisper_model_cache st = None \<or> whisper_model_size st \<noteq> Some model_size then
        (case load_model model_size of
           Inl e \<Rightarrow> (Inl e, st\<lparr>load_calls := load_calls st @ [model_size]\<rparr>)
         | Inr m \<Rightarrow>
             (let st' = st\<lparr>whisper_model_cache := Some m, whisper_model_size := Some model_size,
                           load_calls := load_calls st @ [model_size]\<rparr>
              in (Inr (whisper_model_cache st'), st')))
      else (Inr (whisper_model_cache st), st))"

text \<open>Requests made one after the other; the results are those of the requests, in order.\<close>

fun load_requests ::
  "(string \<Rightarrow> py_exception + 'm) \<Rightarrow> string list \<Rightarrow> 'm model_cache \<Rightarrow> (py_exception + 'm option) list \<times> 'm model_cache" where
  "load_requests load_model [] st = ([], st)"
| "load_requests load_model (model_size # rest) st =
     (case load_whisper_model load_model model_size st of
        (r, st1) \<Rightarrow>
          (case load_requests load_model rest st1 of (rs, st2) \<Rightarrow> (r # rs, st2)))"


section \<open>Sample inputs\<close>

text \<open>
  An instance of the built-ins for the examples below: \<^verbatim>\<open>upper\<close> on ASCII letters, and
  the conversions on the literals the examples use.
\<close>

definition ascii_upper :: "char \<Rightarrow> char" where
  "ascii_upper c =
     (case map_of (zip ''abcdefghijklmnopqrstuvwxyz'' ''ABCDEFGHIJKLMNOPQRSTUVWXYZ'') c of
        None \<Rightarrow> c
      | Some u \<Rightarrow> u)"

definition sample_builtins :: pybuiltins where
  "sample_builtins =
     \<lparr>upper = map ascii_upper,
      float_str = (\<lambda>f. if f = Finite (1/2) then ''0.5'' else ''0.3''),
      float_of_str = (\<lambda>s. if s = ''12.5'' then Some (Finite (25/2)) else None),
      int_of_str = (\<lambda>s. if s = ''50'' then Some 50 else None)\<rparr>"

text \<open>
  A stand-in for \<^verbatim>\<open>ffmpeg\<close> that succeeds and copies the file named after \<^verbatim>\<open>-i\<close> (the
  argument at index 5) to the output path (the last argument).
\<close>

definition copying_ffmpeg :: process where
  "copying_ffmpeg cmd fs = (Inr (CompletedProcess 0 [] []), fs(last cmd := fs (cmd ! 5)))"

text \<open>A stand-in for \<^verbatim>\<open>ffprobe\<close> that exits with status 1 and prints nothing on its standard output.\<close>

definition failing_probe :: probe where
  "failing_probe cmd = Inr (CompletedProcess 1 [] ''error'')"

text \<open>The size whose model the cache holds, if it holds one.\<close>

definition slot :: "'m model_cache \<Rightarrow> string option" where
  "slot st = (if whisper_model_cache st = None then None else whisper_model_size st)"


section \<open>Properties\<close>

subsection \<open>Shared facts\<close>

lemma dict_get_upd_same: "dict_get (s(k \<mapsto> v)) k d = v"
  by (simp add: dict_get_def)

lemma dict_get_upd_other: "k \<noteq> k' \<Longrightarrow> dict_get (s(k' := v)) k d = dict_get s k d"
  by (simp add: dict_get_def)

lemma str_int_samples:
  "str_int 1 = ''1''" "str_int 2 = ''2''" "str_int 3 = ''3''" "str_int 10 = ''10''"
  "str_int 32 = ''32''" "str_int 50 = ''50''" "str_int 960 = ''960''"
  by (simp_all add: str_int_def str_nat.simps digit_char_def)


subsection \<open>C1: the chunk intervals tile the segment\<close>

lemma range_up_nonempty: "0 < step \<Longrightarrow> i < stop \<Longrightarrow> range_up i stop step \<noteq> []"
  by (subst range_up.simps) simp

lemma chunk_texts_nonempty:
  assumes "1 \<le> max_words_per_line"
  obtains chunks where "chunk_texts max_words_per_line text = Inr chunks" "chunks \<noteq> []"
proof (cases "int (length (split text)) \<le> max_words_per_line")
  case True
  then show ?thesis using that by (simp add: chunk_texts_def)
next
  case False
  then have "0 < int (length (split text))" using assms by linarith
  then have "range_up 0 (int (length (split text))) max_words_per_line \<noteq> []"
    using assms by (intro range_up_nonempty) simp_all
  then show ?thesis
    using that False assms by (simp add: chunk_texts_def py_range_def Let_def)
qed

lemma timed_chunks_nth:
  assumes "chunks \<noteq> []"
  shows "timed_chunks start end chunks =
    Inr (map (\<lambda>i. (start + of_nat i * ((end - start) / of_nat (length chunks)),
                    start + (of_nat i + 1) * ((end - start) / of_nat (length chunks)),
                    chunks ! i)) [0..<length chunks])"
proof -
  have "map (\<lambda>(idx, chunk).
               (start + of_nat idx * ((end - start) / of_nat (length chunks)),
                start + (of_nat idx + 1) * ((end - start) / of_nat (length chunks)),
                chunk)) (enumerate 0 chunks)
      = map (\<lambda>i. (start + of_nat i * ((end - start) / of_nat (length chunks)),
                    start + (of_nat i + 1) * ((end - start) / of_nat (length chunks)),
                    chunks ! i)) [0..<length chunks]"
    by (rule nth_equalityI) (simp_all add: nth_enumerate_eq)
  then show ?thesis
    using assms by (simp add: timed_chunks_def Let_def)
qed

text \<open>
  C1. Times are exact rationals. For every segment with \<open>start \<le> end\<close>, every
  \<open>max_words_per_line \<ge> 1\<close> and every text the chunker is run on (the stripped segment text
  in \<^verbatim>\<open>write_srt\<close>, the stripped and upper-cased one in \<^verbatim>\<open>write_ass\<close>), the chunker
  returns at least one chunk, and chunk \<open>i\<close> has the interval from
  \<open>start + i * chunk_duration\<close> to \<open>start + (i + 1) * chunk_duration\<close> with
  \<open>chunk_duration = (end - start) / chunk_count\<close>. The first interval starts at \<open>start\<close>, the
  last ends at \<open>end\<close>, each interval ends where the next starts, an earlier interval ends
  no later than a later one starts, and the durations add up to \<open>end - start\<close>.
\<close>

theorem chunk_intervals_tile_segment:
  assumes "seg_start seg \<le> seg_end seg" "1 \<le> max_words_per_line"
  shows "\<exists>chunks cs.
     chunk_texts max_words_per_line text = Inr chunks \<and> chunks \<noteq> []
     \<and> timed_chunks (seg_start seg) (seg_end seg) chunks = Inr cs
     \<and> (text = strip (seg_text seg) \<longrightarrow> segment_chunks max_words_per_line seg = Inr cs)
     \<and> length cs = length chunks
     \<and> (\<forall>i < length cs.
           cs ! i =
             (seg_start seg + of_nat i * ((seg_end seg - seg_start seg) / of_nat (length chunks)),
              seg_start seg + (of_nat i + 1) * ((seg_end seg - seg_start seg) / of_nat (length chunks)),
              chunks ! i))
     \<and> fst (hd cs) = seg_start seg
     \<and> fst (snd (last cs)) = seg_end seg
     \<and> (\<forall>i. Suc i < length cs \<longrightarrow> fst (snd (cs ! i)) = fst (cs ! Suc i))
     \<and> (\<forall>i < length cs. fst (cs ! i) \<le> fst (snd (cs ! i)))
     \<and> (\<forall>i j. i < j \<and> j < length cs \<longrightarrow> fst (snd (cs ! i)) \<le> fst (cs ! j))
     \<and> (\<Sum>c\<leftarrow>cs. fst (snd c) - fst c) = seg_end seg - seg_start seg"
proof -
  obtain chunks where c: "chunk_texts max_words_per_line text = Inr chunks" "chunks \<noteq> []"
    using chunk_texts_nonempty [OF assms(2)] by blast
  define n where "n = length chunks"
  define d where "d = (seg_end seg - seg_start seg) / of_nat n"
  define cs where "cs = map (\<lambda>i. (seg_start seg + of_nat i * d,
                    seg_start seg + (of_nat i + 1) * d, chunks ! i)) [0..<n]"
  have n: "0 < n" using c(2) by (simp add: n_def)
  have d: "0 \<le> d" using assms(1) n by (simp add: d_def)
  have nd: "of_nat n * d = seg_end seg - seg_start seg"
    using n by (simp add: d_def)
  have t: "timed_chunks (seg_start seg) (seg_end seg) chunks = Inr cs"
    unfolding cs_def d_def n_def by (rule timed_chunks_nth [OF c(2)])
  have len: "length cs = n" by (simp add: cs_def)
  have nth: "cs ! i = (seg_start seg + of_nat i * d, seg_start seg + (of_nat i + 1) * d, chunks ! i)"
    if "i < n" for i
    using that by (simp add: cs_def)
  have ne: "cs \<noteq> []" using n len by auto
  have first: "fst (hd cs) = seg_start seg"
    using nth [of 0] n ne by (simp add: hd_conv_nth)
  have "of_nat (n - 1) + 1 = (of_nat n :: rat)"
    using n by (simp add: of_nat_diff)
  then have "seg_start seg + (of_nat (n - 1) + 1) * d = seg_end seg"
    using nd by simp
  then have lst: "fst (snd (last cs)) = seg_end seg"
    using nth [of "n - 1"] n ne len by (simp add: last_conv_nth)
  have contiguous: "fst (snd (cs ! i)) = fst (cs ! Suc i)" if "Suc i < length cs" for i
    using that nth [of i] nth [of "Suc i"] len by simp
  have ordered: "fst (cs ! i) \<le> fst (snd (cs ! i))" if "i < length cs" for i
    using that nth [of i] len d by (simp add: algebra_simps)
  have disjoint: "fst (snd (cs ! i)) \<le> fst (cs ! j)" if "i < j \<and> j < length cs" for i j
  proof -
    have "(of_nat i + 1) * d \<le> of_nat j * d"
      using that d by (intro mult_right_mono) (simp_all add: of_nat_Suc [symmetric] del: of_nat_Suc)
    then show ?thesis
      using that nth [of i] nth [of j] len by simp
  qed
  have "(\<Sum>c\<leftarrow>cs. fst (snd c) - fst c) = (\<Sum>i\<leftarrow>[0..<n]. d)"
    unfolding cs_def by (simp add: comp_def algebra_simps)
  also have "\<dots> = of_nat n * d"
    by (simp add: sum_list_triv)
  finally have total: "(\<Sum>c\<leftarrow>cs. fst (snd c) - fst c) = seg_end seg - seg_start seg"
    using nd by simp
  have seg: "segment_chunks max_words_per_line seg = Inr cs" if "text = strip (seg_text seg)"
    using that c(1) t by (simp add: segment_chunks_def)
  have nth': "\<forall>i < length cs.
           cs ! i =
             (seg_start seg + of_nat i * ((seg_end seg - seg_start seg) / of_nat (length chunks)),
              seg_start seg + (of_nat i + 1) * ((seg_end seg - seg_start seg) / of_nat (length chunks)),
              chunks ! i)"
    using nth len by (simp add: d_def n_def)
  show ?thesis
    using c t seg len nth' first lst contiguous ordered disjoint total
    unfolding n_def by blast
qed

theorem chunk_intervals_tile_segment_witness:
  "\<exists>cs. segment_chunks 3 \<lparr>seg_start = 0, seg_end = 3, seg_text = '' a b c d e f g ''\<rparr> = Inr cs
     \<and> length cs = 3
     \<and> fst (hd cs) = 0 \<and> fst (snd (last cs)) = 3
     \<and> (\<Sum>c\<leftarrow>cs. fst (snd c) - fst c) = 3"
proof -
  let ?seg = "\<lparr>seg_start = 0, seg_end = 3, seg_text = '' a b c d e f g ''\<rparr>"
  have e: "chunk_texts 3 (strip (seg_text ?seg)) = Inr [''a b c'', ''d e f'', ''g'']"
    by code_simp
  have h: "seg_start ?seg \<le> seg_end ?seg" "(1::int) \<le> 3"
    by simp_all
  from chunk_intervals_tile_segment [OF h, of "strip (seg_text ?seg)"] e
  show ?thesis by fastforce
qed


subsection \<open>C2: the number of chunks\<close>

lemma split_acc_all_space:
  "\<forall>c \<in> set b. isspace c \<Longrightarrow> split_acc w b = (if w = [] then [] else [w])"
  by (induction b arbitrary: w) auto

lemma split_acc_trailing_space:
  "\<forall>c \<in> set b. isspace c \<Longrightarrow> split_acc w (a @ b) = split_acc w a"
  by (induction a arbitrary: w) (auto simp: split_acc_all_space)

lemma split_acc_leading_space: "split_acc [] (dropWhile isspace s) = split_acc [] s"
  by (induction s) auto

lemma rev_dropWhile_rev:
  "t = rev (dropWhile P (rev t)) @ rev (takeWhile P (rev t))"
proof -
  have "rev (dropWhile P (rev t)) @ rev (takeWhile P (rev t))
      = rev (takeWhile P (rev t) @ dropWhile P (rev t))"
    by (simp only: rev_append)
  also have "\<dots> = t"
    by (simp only: takeWhile_dropWhile_id rev_rev_ident)
  finally show ?thesis by (rule sym)
qed

lemma split_strip: "split (strip s) = split s"
proof -
  let ?t = "dropWhile isspace s"
  have "\<forall>c \<in> set (rev (takeWhile isspace (rev ?t))). isspace c"
    by (auto dest: set_takeWhileD)
  from split_acc_trailing_space [OF this, of "[]" "rev (dropWhile isspace (rev ?t))"]
  have "split_acc [] ?t = split_acc [] (rev (dropWhile isspace (rev ?t)))"
    using rev_dropWhile_rev [of ?t isspace] by simp
  then show ?thesis
    by (simp add: split_def strip_def split_acc_leading_space)
qed

text \<open>A word: non-empty, without whitespace.\<close>

lemma split_acc_word:
  "\<forall>c \<in> set u. \<not> isspace c \<Longrightarrow> split_acc w (u @ r) = split_acc (w @ u) r"
  by (induction u arbitrary: w) auto

lemma split_acc_words:
  "\<forall>c \<in> set w. \<not> isspace c \<Longrightarrow> x \<in> set (split_acc w s) \<Longrightarrow>
   x \<noteq> [] \<and> (\<forall>c \<in> set x. \<not> isspace c)"
proof (induction s arbitrary: w)
  case Nil
  then show ?case by (cases "w = []") simp_all
next
  case (Cons c cs)
  show ?case
  proof (cases "isspace c")
    case True
    then have "x = w \<and> w \<noteq> [] \<or> x \<in> set (split_acc [] cs)"
      using Cons.prems(2) by (cases "w = []") simp_all
    then show ?thesis
    proof
      assume "x = w \<and> w \<noteq> []"
      then show ?thesis using Cons.prems(1) by simp
    next
      assume "x \<in> set (split_acc [] cs)"
      then show ?thesis using Cons.IH [of "[]"] by simp
    qed
  next
    case False
    then have "x \<in> set (split_acc (w @ [c]) cs)"
      using Cons.prems(2) by simp
    moreover have "\<forall>c' \<in> set (w @ [c]). \<not> isspace c'"
      using Cons.prems(1) False by simp
    ultimately show ?thesis using Cons.IH [of "w @ [c]"] by blast
  qed
qed

lemma split_words: "x \<in> set (split s) \<Longrightarrow> x \<noteq> [] \<and> (\<forall>c \<in> set x. \<not> isspace c)"
  unfolding split_def using split_acc_words [of "[]" x s] by simp

lemma isspace_space: "isspace (CHR '' '')"
  by (simp add: isspace_def)

lemma split_join:
  "\<forall>x \<in> set ws. x \<noteq> [] \<and> (\<forall>c \<in> set x. \<not> isspace c) \<Longrightarrow> split (join '' '' ws) = ws"
proof (induction "'' ''" ws rule: join.induct)
  case 1
  then show ?case by (simp add: split_def)
next
  case (2 x)
  then show ?case
    using split_acc_word [of x "[]" "[]"] by (simp add: split_def)
next
  case (3 x y ys)
  have "split_acc [] (x @ CHR '' '' # join '' '' (y # ys)) = split_acc x (CHR '' '' # join '' '' (y # ys))"
    using split_acc_word [of x "[]"] 3 by simp
  also have "\<dots> = x # split_acc [] (join '' '' (y # ys))"
    using 3 by (simp add: isspace_space)
  finally show ?case using 3 by (simp add: split_def)
qed

lemma length_range_up:
  "0 < step \<Longrightarrow> length (range_up i stop step) = nat \<lceil>(of_int (stop - i) :: rat) / of_int step\<rceil>"
proof (induction i stop step rule: range_up.induct)
  case (1 i stop step)
  show ?case
  proof (cases "i < stop")
    case True
    have pos: "0 < (of_int (stop - i) :: rat) / of_int step"
      using True 1(2) by simp
    have "(of_int (stop - (i + step)) :: rat) / of_int step = of_int (stop - i) / of_int step - 1"
      using 1(2) by (simp add: field_simps)
    then have "\<lceil>(of_int (stop - (i + step)) :: rat) / of_int step\<rceil> = \<lceil>(of_int (stop - i) :: rat) / of_int step\<rceil> - 1"
      by simp
    moreover have "1 \<le> \<lceil>(of_int (stop - i) :: rat) / of_int step\<rceil>"
      using pos by (simp add: le_ceiling_iff)
    ultimately have "Suc (nat \<lceil>(of_int (stop - (i + step)) :: rat) / of_int step\<rceil>)
        = nat \<lceil>(of_int (stop - i) :: rat) / of_int step\<rceil>"
      by linarith
    then show ?thesis
      using 1 True by (subst range_up.simps) simp
  next
    case False
    then have "(of_int (stop - i) :: rat) / of_int step \<le> 0"
      using 1(2) by (simp add: divide_le_0_iff)
    then have "\<lceil>(of_int (stop - i) :: rat) / of_int step\<rceil> \<le> 0"
      by (simp add: ceiling_le_iff)
    then show ?thesis
      using False by (subst range_up.simps) simp
  qed
qed

lemma concat_slices:
  "0 < k \<Longrightarrow> 0 \<le> i \<Longrightarrow>
   concat (map (\<lambda>j. slice (nat j) (nat (j + k)) ws) (range_up i (int (length ws)) k))
     = drop (nat i) ws"
proof (induction i "int (length ws)" k rule: range_up.induct)
  case (1 i step)
  show ?case
  proof (cases "i < int (length ws)")
    case True
    have n: "nat (i + step) - nat i = nat step" "nat (i + step) = nat step + nat i"
      using 1(2,3) by linarith+
    have "concat (map (\<lambda>j. slice (nat j) (nat (j + step)) ws)
            (range_up (i + step) (int (length ws)) step)) = drop (nat (i + step)) ws"
      using 1 True by simp
    then have "concat (map (\<lambda>j. slice (nat j) (nat (j + step)) ws)
            (range_up i (int (length ws)) step))
        = take (nat step) (drop (nat i) ws) @ drop (nat step) (drop (nat i) ws)"
      using True 1(2) by (subst range_up.simps) (simp add: slice_def n)
    then show ?thesis by (simp only: append_take_drop_id)
  next
    case False
    then show ?thesis by (subst range_up.simps) simp
  qed
qed

lemma split_join_slice:
  "split (join '' '' (slice i j (split s))) = slice i j (split s)"
proof (rule split_join)
  show "\<forall>x \<in> set (slice i j (split s)). x \<noteq> [] \<and> (\<forall>c \<in> set x. \<not> isspace c)"
    using split_words [of _ s]
    by (auto simp: slice_def dest!: in_set_takeD in_set_dropD)
qed

text \<open>
  C2. For every segment text and every \<open>max_words_per_line \<ge> 1\<close> the chunker returns
  \<open>max(1, ceil(word_count / max_words_per_line))\<close> chunks, where \<open>word_count\<close> is the number of
  words of the text split on whitespace. When \<open>word_count \<le> max_words_per_line\<close> the only
  chunk is the stripped text. Every chunk has at most \<open>max_words_per_line\<close> words, and the
  words of the chunks, in order, are the words of the text. With 7 words and
  \<open>max_words_per_line = 3\<close> the chunks have 3, 3 and 1 words.
\<close>

theorem chunk_count:
  assumes "1 \<le> max_words_per_line"
  shows "\<exists>chunks.
     chunk_texts max_words_per_line (strip text) = Inr chunks
     \<and> length chunks
         = max 1 (nat \<lceil>(of_nat (length (split text)) :: rat) / of_int max_words_per_line\<rceil>)
     \<and> (int (length (split text)) \<le> max_words_per_line \<longrightarrow> chunks = [strip text])
     \<and> (\<forall>c \<in> set chunks. int (length (split c)) \<le> max_words_per_line)
     \<and> concat (map split chunks) = split text
     \<and> (length (split text) = 7 \<and> max_words_per_line = 3 \<longrightarrow>
          map (\<lambda>c. length (split c)) chunks = [3, 3, 1])"
proof (cases "int (length (split text)) \<le> max_words_per_line")
  case True
  have c: "chunk_texts max_words_per_line (strip text) = Inr [strip text]"
    using True by (simp add: chunk_texts_def split_strip)
  have mwpos: "0 < (of_int max_words_per_line :: rat)"
    using assms by simp
  have "(of_int (int (length (split text))) :: rat) \<le> of_int max_words_per_line"
    using True by (simp only: of_int_le_iff)
  then have "(of_nat (length (split text)) :: rat) \<le> of_int max_words_per_line"
    by (simp only: of_int_of_nat_eq)
  then have "(of_nat (length (split text)) :: rat) / of_int max_words_per_line \<le> 1"
    using mwpos by (simp only: pos_divide_le_eq mult_1)
  then have "\<lceil>(of_nat (length (split text)) :: rat) / of_int max_words_per_line\<rceil> \<le> 1"
    by (simp add: ceiling_le_iff)
  then have "nat \<lceil>(of_nat (length (split text)) :: rat) / of_int max_words_per_line\<rceil> \<le> 1"
    by linarith
  then have l: "max 1 (nat \<lceil>(of_nat (length (split text)) :: rat) / of_int max_words_per_line\<rceil>) = 1"
    by (rule max_absorb1)
  show ?thesis
    using c l True by (simp add: split_strip)
next
  case False
  define ws where "ws = split text"
  define starts where "starts = range_up 0 (int (length ws)) max_words_per_line"
  define chunks where
    "chunks = map (\<lambda>i. join '' '' (slice (nat i) (nat (i + max_words_per_line)) ws)) starts"
  have gt: "max_words_per_line < int (length ws)" using False by (simp add: ws_def)
  have c: "chunk_texts max_words_per_line (strip text) = Inr chunks"
    using False assms
    by (simp add: chunk_texts_def split_strip py_range_def Let_def chunks_def starts_def ws_def)
  have sp: "map split chunks = map (\<lambda>i. slice (nat i) (nat (i + max_words_per_line)) ws) starts"
    by (simp add: chunks_def ws_def split_join_slice)
  have len: "length chunks = nat \<lceil>(of_nat (length ws) :: rat) / of_int max_words_per_line\<rceil>"
    using length_range_up [of max_words_per_line 0 "int (length ws)"] assms
    by (simp add: chunks_def starts_def)
  have mwpos: "0 < (of_int max_words_per_line :: rat)"
    using assms by simp
  have "(of_int max_words_per_line :: rat) < of_int (int (length ws))"
    using gt by (simp only: of_int_less_iff)
  then have "(of_int max_words_per_line :: rat) < of_nat (length ws)"
    by (simp only: of_int_of_nat_eq)
  then have "1 < (of_nat (length ws) :: rat) / of_int max_words_per_line"
    using mwpos by (simp only: pos_less_divide_eq mult_1)
  then have "1 \<le> \<lceil>(of_nat (length ws) :: rat) / of_int max_words_per_line\<rceil>"
    by (simp add: le_ceiling_iff)
  then have "1 \<le> nat \<lceil>(of_nat (length ws) :: rat) / of_int max_words_per_line\<rceil>"
    by linarith
  then have "max 1 (nat \<lceil>(of_nat (length ws) :: rat) / of_int max_words_per_line\<rceil>)
      = nat \<lceil>(of_nat (length ws) :: rat) / of_int max_words_per_line\<rceil>"
    by (rule max_absorb2)
  then have l: "length chunks
      = max 1 (nat \<lceil>(of_nat (length ws) :: rat) / of_int max_words_per_line\<rceil>)"
    using len by (simp only:)
  have small: "int (length (split c)) \<le> max_words_per_line" if "c \<in> set chunks" for c
  proof -
    from that obtain i where "c = join '' '' (slice (nat i) (nat (i + max_words_per_line)) ws)"
      by (auto simp: chunks_def)
    then have "split c = slice (nat i) (nat (i + max_words_per_line)) ws"
      by (simp add: ws_def split_join_slice)
    then show ?thesis using assms by (simp add: slice_def)
  qed
  have cat: "concat (map split chunks) = ws"
    unfolding sp starts_def using concat_slices [of max_words_per_line 0 ws] assms by simp
  have seven: "map (\<lambda>c. length (split c)) chunks = [3, 3, 1]"
    if "length ws = 7 \<and> max_words_per_line = 3"
  proof -
    have "range_up 0 7 3 = [0, 3, 6]"
      by (simp add: range_up.simps)
    then have "starts = [0, 3, 6]"
      using that by (simp add: starts_def)
    then have "map split chunks = [slice 0 3 ws, slice 3 6 ws, slice 6 9 ws]"
      using that sp by simp
    then have "map length (map split chunks) = [3, 3, 1]"
      using that by (simp add: slice_def)
    then show ?thesis by (simp add: comp_def)
  qed
  show ?thesis
  proof (intro exI conjI impI ballI)
    show "chunk_texts max_words_per_line (strip text) = Inr chunks" by (rule c)
    show "length chunks
         = max 1 (nat \<lceil>(of_nat (length (split text)) :: rat) / of_int max_words_per_line\<rceil>)"
      using l by (simp only: ws_def)
    show "chunks = [strip text]" if "int (length (split text)) \<le> max_words_per_line"
      using that False by simp
    show "int (length (split c)) \<le> max_words_per_line" if "c \<in> set chunks" for c
      using that by (rule small)
    show "concat (map split chunks) = split text"
      using cat by (simp only: ws_def)
    show "map (\<lambda>c. length (split c)) chunks = [3, 3, 1]"
      if "length (split text) = 7 \<and> max_words_per_line = 3"
      using that seven by (simp only: ws_def)
  qed
qed

theorem chunk_count_witness:
  "chunk_texts 3 (strip '' a b c d e f g '') = Inr [''a b c'', ''d e f'', ''g'']
   \<and> map (\<lambda>c. length (split c)) [''a b c'', ''d e f'', ''g''] = [3, 3, 1]"
proof -
  have e: "chunk_texts 3 (strip '' a b c d e f g '') = Inr [''a b c'', ''d e f'', ''g'']"
    by code_simp
  have n: "length (split '' a b c d e f g '') = 7"
    by code_simp
  from chunk_count [of 3 "'' a b c d e f g ''"] obtain chunks where
    "chunk_texts 3 (strip '' a b c d e f g '') = Inr chunks"
    "length (split '' a b c d e f g '') = 7 \<and> (3::int) = 3 \<longrightarrow>
       map (\<lambda>c. length (split c)) chunks = [3, 3, 1]"
    by auto
  with e n show ?thesis by simp
qed


subsection \<open>C3: which branch the burn-in takes\<close>

text \<open>
  C3. For every settings dictionary \<^verbatim>\<open>burn_subtitles\<close> takes the styled (ASS) branch if and
  only if the \<^verbatim>\<open>use-ass\<close> setting is true (its value is truthy) or the
  \<^verbatim>\<open>highlight-position\<close> setting is present (the key has a value other than \<^verbatim>\<open>None\<close>),
  whatever the other of the two is; otherwise it takes the line (SRT) branch. Without a
  dictionary the defaults apply, and they select the styled branch.
\<close>

theorem burn_in_selects_styled_path:
  "burn_subtitles py ffmpeg fs video_path srt_text output_path (Some settings) =
     (if truthy (dict_get settings ''use-ass'' (VBool False))
         \<or> (\<exists>v. settings ''highlight-position'' = Some v \<and> v \<noteq> VNone)
      then burn_ass ffmpeg fs video_path srt_text output_path
      else burn_srt py ffmpeg fs video_path srt_text output_path settings)
   \<and> burn_subtitles py ffmpeg fs video_path srt_text output_path None =
       burn_ass ffmpeg fs video_path srt_text output_path"
  by (auto simp: burn_subtitles_def use_ass_def dict_get1_def dict_get_def
      burn_default_settings_def split: option.splits)

theorem burn_in_selects_styled_path_witness:
  "burn_subtitles sample_builtins copying_ffmpeg Map.empty ''a.mp4'' ''S'' ''o.mp4''
       (Some [''use-ass'' \<mapsto> VBool False, ''highlight-position'' \<mapsto> VInt 0])
     = burn_ass copying_ffmpeg Map.empty ''a.mp4'' ''S'' ''o.mp4''
   \<and> burn_subtitles sample_builtins copying_ffmpeg Map.empty ''a.mp4'' ''S'' ''o.mp4''
       (Some [''use-ass'' \<mapsto> VBool True])
     = burn_ass copying_ffmpeg Map.empty ''a.mp4'' ''S'' ''o.mp4''
   \<and> burn_subtitles sample_builtins copying_ffmpeg Map.empty ''a.mp4'' ''S'' ''o.mp4''
       (Some [''use-ass'' \<mapsto> VBool False])
     = burn_srt sample_builtins copying_ffmpeg Map.empty ''a.mp4'' ''S'' ''o.mp4''
         [''use-ass'' \<mapsto> VBool False]"
  using
    burn_in_selects_styled_path [of sample_builtins copying_ffmpeg Map.empty "''a.mp4''" "''S''"
      "''o.mp4''" "[''use-ass'' \<mapsto> VBool False, ''highlight-position'' \<mapsto> VInt 0]"]
    burn_in_selects_styled_path [of sample_builtins copying_ffmpeg Map.empty "''a.mp4''" "''S''"
      "''o.mp4''" "[''use-ass'' \<mapsto> VBool True]"]
    burn_in_selects_styled_path [of sample_builtins copying_ffmpeg Map.empty "''a.mp4''" "''S''"
      "''o.mp4''" "[''use-ass'' \<mapsto> VBool False]"]
  by (simp add: dict_get_def)


subsection \<open>C4: the highlighted word\<close>

lemma length_formatted_words [simp]:
  "length (formatted_words hc pc hp ws) = length ws"
  by (simp add: formatted_words_def)

lemma formatted_words_nth:
  "i < length ws \<Longrightarrow>
   formatted_words hc pc hp ws ! i =
     (if should_highlight hp (length ws) i then highlight_word hc pc (ws ! i) else ws ! i)"
  by (simp add: formatted_words_def nth_enumerate_eq)

lemma formatted_words_one:
  assumes "j < length ws" "\<And>i. i < length ws \<Longrightarrow> should_highlight hp (length ws) i \<longleftrightarrow> i = j"
  shows "formatted_words hc pc hp ws = ws[j := highlight_word hc pc (ws ! j)]"
  by (rule nth_equalityI) (simp_all add: formatted_words_nth assms nth_list_update)

lemma formatted_words_none:
  assumes "\<And>i. i < length ws \<Longrightarrow> \<not> should_highlight hp (length ws) i"
  shows "formatted_words hc pc hp ws = ws"
  by (rule nth_equalityI) (simp_all add: formatted_words_nth assms)

lemma highlight_word_neq: "highlight_word hc pc w \<noteq> w"
proof
  assume "highlight_word hc pc w = w"
  then have "length (highlight_word hc pc w) = length w" by simp
  then show False by (simp add: highlight_word_def)
qed

text \<open>
  C4, as amended. A chunk without words is rendered as it is, with no highlight. For a
  chunk with at least one word the event text is the chunk's words, in order, joined by
  single spaces, with exactly one of them wrapped in the highlight escape followed by the
  reset to the primary colour: the word at index 0 for \<^verbatim>\<open>"first"\<close>, the last word for
  \<^verbatim>\<open>"last"\<close>, the word at index \<open>k\<close> for an integer \<open>0 \<le> k < n\<close> (\<open>n\<close> the number of
  words). For any other integer no word is wrapped. The wrapped word is
  \<^verbatim>\<open>{\c\<close>, the highlight colour, \<^verbatim>\<open>}\<close>, the word, \<^verbatim>\<open>{\c\<close>, the primary colour, \<^verbatim>\<open>}\<close>, and so
  differs from the word. The functions are total: nothing raises.
\<close>

theorem highlight_one_word:
  "(split chunk = [] \<longrightarrow> formatted_text hc pc hp chunk = chunk)
   \<and> (split chunk \<noteq> [] \<longrightarrow>
        formatted_text hc pc hp chunk = join '' '' (formatted_words hc pc hp (split chunk))
        \<and> (hp = VStr ''first'' \<longrightarrow>
             formatted_words hc pc hp (split chunk)
               = (split chunk)[0 := highlight_word hc pc (split chunk ! 0)])
        \<and> (hp = VStr ''last'' \<longrightarrow>
             formatted_words hc pc hp (split chunk)
               = (split chunk)[length (split chunk) - 1 :=
                    highlight_word hc pc (split chunk ! (length (split chunk) - 1))])
        \<and> (\<forall>k. hp = VInt k \<and> 0 \<le> k \<and> k < int (length (split chunk)) \<longrightarrow>
             formatted_words hc pc hp (split chunk)
               = (split chunk)[nat k := highlight_word hc pc (split chunk ! nat k)])
        \<and> (\<forall>k. hp = VInt k \<and> (k < 0 \<or> int (length (split chunk)) \<le> k) \<longrightarrow>
             formatted_words hc pc hp (split chunk) = split chunk))
   \<and> (\<forall>w. highlight_word hc pc w \<noteq> w)
   \<and> (\<forall>w. highlight_word hc pc w
            = [CHR ''{'', CHR 0x5C, CHR ''c''] @ hc @ ''}'' @ w
                @ [CHR ''{'', CHR 0x5C, CHR ''c''] @ pc @ ''}'')"
proof (intro conjI impI allI)
  show "formatted_text hc pc hp chunk = chunk" if "split chunk = []"
    using that by (simp add: formatted_text_def)
  show "highlight_word hc pc w \<noteq> w" for w
    by (rule highlight_word_neq)
  show "highlight_word hc pc w
            = [CHR ''{'', CHR 0x5C, CHR ''c''] @ hc @ ''}'' @ w
                @ [CHR ''{'', CHR 0x5C, CHR ''c''] @ pc @ ''}''" for w
    by (simp add: highlight_word_def)
next
  assume ne: "split chunk \<noteq> []"
  define ws where "ws = split chunk"
  have n: "0 < length ws" using ne by (simp add: ws_def)
  have e: "int i = int (length ws) - 1 \<longleftrightarrow> i = length ws - 1" for i
    using n by linarith
  show "formatted_text hc pc hp chunk = join '' '' (formatted_words hc pc hp (split chunk))"
    using ne by (simp add: formatted_text_def Let_def)
  show "formatted_words hc pc hp (split chunk)
               = (split chunk)[0 := highlight_word hc pc (split chunk ! 0)]"
    if "hp = VStr ''first''"
    unfolding ws_def [symmetric]
    by (rule formatted_words_one) (use n that in \<open>simp_all add: should_highlight_def\<close>)
  show "formatted_words hc pc hp (split chunk)
               = (split chunk)[length (split chunk) - 1 :=
                    highlight_word hc pc (split chunk ! (length (split chunk) - 1))]"
    if "hp = VStr ''last''"
    unfolding ws_def [symmetric]
    by (rule formatted_words_one) (use n that in \<open>simp_all add: should_highlight_def e\<close>)
  show "formatted_words hc pc hp (split chunk)
               = (split chunk)[nat k := highlight_word hc pc (split chunk ! nat k)]"
    if "hp = VInt k \<and> 0 \<le> k \<and> k < int (length (split chunk))" for k
    unfolding ws_def [symmetric]
    by (rule formatted_words_one) (use n that in \<open>auto simp add: should_highlight_def ws_def\<close>)
  show "formatted_words hc pc hp (split chunk) = split chunk"
    if "hp = VInt k \<and> (k < 0 \<or> int (length (split chunk)) \<le> k)" for k
    unfolding ws_def [symmetric]
    by (rule formatted_words_none) (use n that in \<open>auto simp add: should_highlight_def ws_def\<close>)
qed

theorem highlight_one_word_witness:
  "formatted_text ''&H0000FFFF'' ''&H00FFFFFF'' (VStr ''last'') ''HELLO BIG WORLD''
     = ''HELLO BIG '' @ [CHR ''{'', CHR 0x5C, CHR ''c''] @ ''&H0000FFFF}WORLD''
         @ [CHR ''{'', CHR 0x5C, CHR ''c''] @ ''&H00FFFFFF}''
   \<and> formatted_text ''&H0000FFFF'' ''&H00FFFFFF'' (VStr ''first'') ''HELLO BIG WORLD''
     = [CHR ''{'', CHR 0x5C, CHR ''c''] @ ''&H0000FFFF}HELLO''
         @ [CHR ''{'', CHR 0x5C, CHR ''c''] @ ''&H00FFFFFF} BIG WORLD''
   \<and> formatted_words ''&H0000FFFF'' ''&H00FFFFFF'' (VInt 1) (split ''HELLO BIG WORLD'')
     = [''HELLO'',
        [CHR ''{'', CHR 0x5C, CHR ''c''] @ ''&H0000FFFF}BIG''
          @ [CHR ''{'', CHR 0x5C, CHR ''c''] @ ''&H00FFFFFF}'',
        ''WORLD'']
   \<and> formatted_words ''&H0000FFFF'' ''&H00FFFFFF'' (VInt 3) (split ''HELLO BIG WORLD'')
     = [''HELLO'', ''BIG'', ''WORLD'']
   \<and> formatted_words ''&H0000FFFF'' ''&H00FFFFFF'' (VInt (- 1)) (split ''HELLO BIG WORLD'')
     = [''HELLO'', ''BIG'', ''WORLD'']"
proof -
  have s: "split ''HELLO BIG WORLD'' = [''HELLO'', ''BIG'', ''WORLD'']"
    by code_simp
  show ?thesis
    using highlight_one_word [of "''HELLO BIG WORLD''" "''&H0000FFFF''" "''&H00FFFFFF''" "VStr ''last''"]
      highlight_one_word [of "''HELLO BIG WORLD''" "''&H0000FFFF''" "''&H00FFFFFF''" "VStr ''first''"]
      highlight_one_word [of "''HELLO BIG WORLD''" "''&H0000FFFF''" "''&H00FFFFFF''" "VInt 1"]
      highlight_one_word [of "''HELLO BIG WORLD''" "''&H0000FFFF''" "''&H00FFFFFF''" "VInt 3"]
      highlight_one_word [of "''HELLO BIG WORLD''" "''&H0000FFFF''" "''&H00FFFFFF''" "VInt (- 1)"]
    by (simp add: s)
qed

text \<open>
  The claim as stated fails on a chunk without words: the segment text \<^verbatim>\<open>" "\<close> gives one
  event whose text is empty, with no word highlighted. Spacing is not preserved either:
  the words of a chunk are joined by single spaces, whatever separated them.
\<close>

theorem chunk_without_words_has_no_highlight:
  "write_ass sample_builtins [\<lparr>seg_start = 0, seg_end = 1, seg_text = '' ''\<rparr>] 3 None
     = Inr (ass_header sample_builtins write_ass_default_settings ''&H00FFFFFF'' ''&H00000000''
            @ ''Dialogue: 0,0:00:00.00,0:00:01.00,Default,,0,0,0,,'' @ NL)
   \<and> formatted_text ''&H0000FFFF'' ''&H00FFFFFF'' (VStr ''first'') ''HELLO  WORLD''
     = [CHR ''{'', CHR 0x5C, CHR ''c''] @ ''&H0000FFFF}HELLO''
         @ [CHR ''{'', CHR 0x5C, CHR ''c''] @ ''&H00FFFFFF} WORLD''"
  by code_simp


subsection \<open>C5: timestamps are monotone\<close>

lemma digit_char_code: "d < 10 \<Longrightarrow> of_char (digit_char d) = (48 + d :: nat)"
proof -
  assume "d < 10"
  then have "d = 0 \<or> d = 1 \<or> d = 2 \<or> d = 3 \<or> d = 4 \<or> d = 5 \<or> d = 6 \<or> d = 7 \<or> d = 8 \<or> d = 9"
    by arith
  then show ?thesis
    by (elim disjE) (simp_all add: digit_char_def)
qed

lemma digit_char_less: "a < 10 \<Longrightarrow> b < 10 \<Longrightarrow> digit_char a < digit_char b \<longleftrightarrow> a < b"
  by (simp add: less_char_def digit_char_code)

lemma digit_char_eq: "a < 10 \<Longrightarrow> b < 10 \<Longrightarrow> digit_char a = digit_char b \<longleftrightarrow> a = b"
  by (metis digit_char_less less_irrefl nat_neq_iff)

lemma digit_char_0: "digit_char 0 = CHR ''0''"
  by (simp add: digit_char_def)

lemma str_nat_1: "n < 10 \<Longrightarrow> str_nat n = [digit_char n]"
  by (simp add: str_nat.simps)

lemma str_nat_2: "10 \<le> n \<Longrightarrow> n < 100 \<Longrightarrow> str_nat n = [digit_char (n div 10), digit_char (n mod 10)]"
  by (subst str_nat.simps) (simp add: str_nat_1)

lemma str_nat_3:
  "100 \<le> n \<Longrightarrow> n < 1000 \<Longrightarrow>
   str_nat n = [digit_char (n div 10 div 10), digit_char (n div 10 mod 10), digit_char (n mod 10)]"
  by (subst str_nat.simps) (simp add: str_nat_2)

lemma lex_divmod:
  fixes a b k :: nat
  assumes "a < b"
  shows "a div k < b div k \<or> (a div k = b div k \<and> a mod k < b mod k)"
proof (cases "a div k = b div k")
  case True
  have "a div k * k + a mod k < b div k * k + b mod k"
    using assms by (simp only: div_mult_mod_eq)
  then show ?thesis using True by (simp only: add_less_cancel_left simp_thms)
next
  case False
  have "a div k \<le> b div k"
    using assms by (simp add: div_le_mono)
  then show ?thesis using False by simp
qed

lemma digits3_le:
  fixes a b :: nat
  assumes "a \<le> b"
  shows "a div 10 div 10 < b div 10 div 10
        \<or> (a div 10 div 10 = b div 10 div 10 \<and> a div 10 mod 10 < b div 10 mod 10)
        \<or> (a div 10 div 10 = b div 10 div 10 \<and> a div 10 mod 10 = b div 10 mod 10
             \<and> a mod 10 \<le> b mod 10)"
proof (cases "a = b")
  case True
  then show ?thesis by simp
next
  case False
  then have "a < b" using assms by simp
  from lex_divmod [OF this, of 10]
  show ?thesis
  proof
    assume "a div 10 < b div 10"
    from lex_divmod [OF this, of 10] show ?thesis by auto
  next
    assume "a div 10 = b div 10 \<and> a mod 10 < b mod 10"
    then show ?thesis by simp
  qed
qed

text \<open>Two and three digits, for a natural number.\<close>

lemma fmt0_2: "n < 100 \<Longrightarrow> fmt0 2 (int n) = [digit_char (n div 10), digit_char (n mod 10)]"
  by (cases "n < 10") (simp_all add: fmt0_def zfill_def str_nat_1 str_nat_2 digit_char_0)

lemma fmt0_3: "n < 1000 \<Longrightarrow>
  fmt0 3 (int n) = [digit_char (n div 10 div 10), digit_char (n div 10 mod 10), digit_char (n mod 10)]"
proof -
  assume a: "n < 1000"
  consider "n < 10" | "10 \<le> n" "n < 100" | "100 \<le> n" "n < 1000"
    using a by linarith
  then show ?thesis
  proof cases
    case 1
    then show ?thesis by (simp add: fmt0_def zfill_def str_nat_1 digit_char_0 numeral_3_eq_3)
  next
    case 2
    then have "n div 10 div 10 = 0" by simp
    with 2 show ?thesis by (simp add: fmt0_def zfill_def str_nat_2 digit_char_0)
  next
    case 3
    then show ?thesis by (simp add: fmt0_def zfill_def str_nat_3)
  qed
qed

lemma fmt0_2_less: "a < b \<Longrightarrow> b < 100 \<Longrightarrow> fmt0 2 (int a) < fmt0 2 (int b)"
proof -
  assume a: "a < b" "b < 100"
  have "a div 10 < 10" "b div 10 < 10" using a by auto
  with lex_divmod [OF a(1), of 10] show ?thesis
    using a by (auto simp: fmt0_2 digit_char_less digit_char_eq)
qed

lemma fmt0_3_le: "a \<le> b \<Longrightarrow> b < 1000 \<Longrightarrow> fmt0 3 (int a) \<le> fmt0 3 (int b)"
proof -
  assume a: "a \<le> b" "b < 1000"
  have "a div 10 div 10 < 10" "b div 10 div 10 < 10" using a by auto
  with digits3_le [OF a(1)] show ?thesis
    using a by (auto simp: fmt0_3 digit_char_less digit_char_eq)
qed

lemma fmt0_2_le: "a \<le> b \<Longrightarrow> b < 100 \<Longrightarrow> fmt0 2 (int a) \<le> fmt0 2 (int b)"
  using fmt0_2_less [of a b] by (cases "a = b") auto

lemma str_int_1_less: "a < b \<Longrightarrow> b < 10 \<Longrightarrow> str_int (int a) < str_int (int b)"
  by (simp add: str_int_def str_nat_1 digit_char_less)

lemma str_int_2_less: "10 \<le> a \<Longrightarrow> a < b \<Longrightarrow> b < 100 \<Longrightarrow> str_int (int a) < str_int (int b)"
proof -
  assume a: "10 \<le> a" "a < b" "b < 100"
  have "a div 10 < 10" "b div 10 < 10" using a by auto
  with lex_divmod [OF a(2), of 10] show ?thesis
    using a by (auto simp: str_int_def str_nat_2 digit_char_less digit_char_eq)
qed

lemma length_fmt0_2: "n < 100 \<Longrightarrow> length (fmt0 2 (int n)) = 2"
  by (simp add: fmt0_2)

lemma length_str_int_1: "n < 10 \<Longrightarrow> length (str_int (int n)) = 1"
  by (simp add: str_int_def str_nat_1)

lemma length_str_int_2: "10 \<le> n \<Longrightarrow> n < 100 \<Longrightarrow> length (str_int (int n)) = 2"
  by (simp add: str_int_def str_nat_2)

lemma append_less_append:
  fixes a b :: "'a::order list"
  shows "length a = length b \<Longrightarrow> a < b \<Longrightarrow> a @ r < b @ r'"
  unfolding list_less_def by (rule lexord_sufI) simp_all

lemma append_le_append_same:
  fixes a :: "'a::order list"
  shows "r \<le> r' \<Longrightarrow> a @ r \<le> a @ r'"
  unfolding list_le_def list_less_def by (auto simp: lexord_append_leftI)

text \<open>A field of fixed width followed by a separator and the rest.\<close>

lemma field_le:
  fixes a b :: string
  assumes "length a = length b" "a < b \<or> (a = b \<and> r \<le> r')"
  shows "a @ c # r \<le> b @ c # r'"
  using assms append_less_append [of a b "c # r" "c # r'"]
    append_le_append_same [of "c # r" "c # r'" a]
  by auto

lemma int_trunc_nonneg: "0 \<le> x \<Longrightarrow> int_trunc x = \<lfloor>x\<rfloor>"
  by (simp add: int_trunc_def)

lemma floor_bounds:
  fixes x :: rat
  shows "of_int \<lfloor>x\<rfloor> \<le> x" "x < of_int \<lfloor>x\<rfloor> + 1"
  by linarith+

lemma clock_fields:
  fixes x :: rat
  assumes "0 \<le> x" "x < 86400"
  obtains h m s :: nat and f :: rat where
    "h < 24" "m < 60" "s < 60" "0 \<le> f" "f < 1"
    "x = of_nat (3600 * h + 60 * m + s) + f"
    "format_time x = fmt0 2 (int h) @ CHR '':'' # fmt0 2 (int m) @ CHR '':'' # fmt0 2 (int s)
       @ CHR '','' # fmt0 3 (int_trunc (f * 1000))"
    "format_time_ass x = str_int (int h) @ CHR '':'' # fmt0 2 (int m) @ CHR '':'' # fmt0 2 (int s)
       @ CHR ''.'' # fmt0 2 (int_trunc (f * 100))"
proof -
  define H where "H = \<lfloor>x / 3600\<rfloor>"
  define r where "r = x - 3600 * of_int H"
  define M where "M = \<lfloor>r / 60\<rfloor>"
  define secs where "secs = r - 60 * of_int M"
  define S where "S = \<lfloor>secs\<rfloor>"
  define f where "f = secs - of_int S"
  have H: "of_int H \<le> x / 3600" "x / 3600 < of_int H + 1"
    unfolding H_def by (rule floor_bounds)+
  then have H': "3600 * of_int H \<le> x" "x < 3600 * of_int H + 3600"
    by (simp_all add: field_simps)
  have Hr: "0 \<le> H" "H < 24"
    using assms H_def by (simp_all add: floor_less_iff)
  have r: "0 \<le> r" "r < 3600"
    using H' by (simp_all add: r_def)
  have M: "of_int M \<le> r / 60" "r / 60 < of_int M + 1"
    unfolding M_def by (rule floor_bounds)+
  then have M': "60 * of_int M \<le> r" "r < 60 * of_int M + 60"
    by (simp_all add: field_simps)
  have Mr: "0 \<le> M" "M < 60"
    using r M_def by (simp_all add: floor_less_iff)
  have secs: "0 \<le> secs" "secs < 60"
    using M' by (simp_all add: secs_def)
  have S: "of_int S \<le> secs" "secs < of_int S + 1"
    unfolding S_def by (rule floor_bounds)+
  have Sr: "0 \<le> S" "S < 60"
    using secs S_def by (simp_all add: floor_less_iff)
  have f: "0 \<le> f" "f < 1"
    using S by (simp_all add: f_def)
  have x: "x = of_int (3600 * H + 60 * M + S) + f"
    by (simp add: f_def secs_def r_def)
  have fl60: "\<lfloor>x / 60\<rfloor> = 60 * H + M"
  proof (rule floor_unique)
    show "of_int (60 * H + M) \<le> x / 60"
      using M' by (simp add: r_def field_simps)
    show "x / 60 < of_int (60 * H + M) + 1"
      using M' by (simp add: r_def field_simps)
  qed
  have flx: "\<lfloor>x\<rfloor> = 3600 * H + 60 * M + S"
  proof (rule floor_unique)
    show "of_int (3600 * H + 60 * M + S) \<le> x"
      using f x by simp
    show "x < of_int (3600 * H + 60 * M + S) + 1"
      using f x by simp
  qed
  have e: "floordiv x 3600 = H" "fmod x 3600 = r" "floordiv r 60 = M" "fmod r 60 = secs"
    "int_trunc secs = S"
    using secs by (simp_all add: floordiv_def fmod_def H_def r_def M_def secs_def S_def
        int_trunc_nonneg)
  have ft: "format_time x = fmt0 2 H @ CHR '':'' # fmt0 2 M @ CHR '':'' # fmt0 2 S
       @ CHR '','' # fmt0 3 (int_trunc (f * 1000))"
    unfolding format_time_def Let_def e f_def by simp
  have m60: "fmod x 60 = secs"
    by (simp add: fmod_def floordiv_def fl60 secs_def r_def)
  have fta: "format_time_ass x = str_int H @ CHR '':'' # fmt0 2 M @ CHR '':'' # fmt0 2 S
       @ CHR ''.'' # fmt0 2 (int_trunc (f * 100))"
  proof -
    have "int_trunc x = 3600 * H + 60 * M + S"
      using assms(1) by (simp add: int_trunc_nonneg flx)
    then have "x - of_int (int_trunc x) = f"
      by (simp add: f_def secs_def r_def)
    moreover have "int_trunc (fmod x 60) = S"
      using secs by (simp add: m60 int_trunc_nonneg S_def)
    moreover have "floordiv (fmod x 3600) 60 = M"
      by (simp add: fmod_def floordiv_def H_def [symmetric] r_def [symmetric] M_def)
    moreover have "floordiv x 3600 = H"
      by (simp add: floordiv_def H_def)
    ultimately show ?thesis
      by (simp add: format_time_ass_def Let_def)
  qed
  show ?thesis
  proof (rule that [of "nat H" "nat M" "nat S" f])
    show "nat H < 24" "nat M < 60" "nat S < 60" using Hr Mr Sr by simp_all
    show "0 \<le> f" "f < 1" using f by simp_all
    show "x = of_nat (3600 * nat H + 60 * nat M + nat S) + f"
      using x Hr Mr Sr by simp
    show "format_time x = fmt0 2 (int (nat H)) @ CHR '':'' # fmt0 2 (int (nat M)) @ CHR '':'' # fmt0 2 (int (nat S))
       @ CHR '','' # fmt0 3 (int_trunc (f * 1000))"
      using ft Hr Mr Sr by simp
    show "format_time_ass x = str_int (int (nat H)) @ CHR '':'' # fmt0 2 (int (nat M)) @ CHR '':'' # fmt0 2 (int (nat S))
       @ CHR ''.'' # fmt0 2 (int_trunc (f * 100))"
      using fta Hr Mr Sr by simp
  qed
qed

lemma clock_digits:
  fixes h m s :: nat
  assumes "m < 60" "s < 60"
  shows "(3600 * h + 60 * m + s) div 3600 = h"
    "(3600 * h + 60 * m + s) mod 3600 div 60 = m"
    "(3600 * h + 60 * m + s) mod 3600 mod 60 = s"
proof -
  have r: "60 * m + s < 3600" using assms by linarith
  have a: "3600 * h + 60 * m + s = (60 * m + s) + h * 3600" by simp
  show "(3600 * h + 60 * m + s) div 3600 = h"
    unfolding a using r by (simp only: div_mult_self1 div_less)
  have md: "(3600 * h + 60 * m + s) mod 3600 = 60 * m + s"
    unfolding a using r by (simp only: mod_mult_self1 mod_less)
  have b: "60 * m + s = s + m * 60" by simp
  show "(3600 * h + 60 * m + s) mod 3600 div 60 = m"
    unfolding md b using assms(2) by simp
  show "(3600 * h + 60 * m + s) mod 3600 mod 60 = s"
    unfolding md b using assms(2) by simp
qed

lemma clock_lex_nat:
  fixes h1 m1 s1 h2 m2 s2 :: nat
  assumes "m1 < 60" "s1 < 60" "m2 < 60" "s2 < 60"
    and lt: "3600 * h1 + 60 * m1 + s1 < 3600 * h2 + 60 * m2 + s2"
  shows "h1 < h2 \<or> (h1 = h2 \<and> (m1 < m2 \<or> (m1 = m2 \<and> s1 < s2)))"
proof -
  note d1 = clock_digits [OF assms(1,2), of h1] and d2 = clock_digits [OF assms(3,4), of h2]
  from lex_divmod [OF lt, of 3600]
  have "h1 < h2 \<or> (h1 = h2 \<and> (3600 * h1 + 60 * m1 + s1) mod 3600 < (3600 * h2 + 60 * m2 + s2) mod 3600)"
    unfolding d1(1) d2(1) .
  then show ?thesis
  proof
    assume "h1 < h2" then show ?thesis by simp
  next
    assume a: "h1 = h2 \<and> (3600 * h1 + 60 * m1 + s1) mod 3600 < (3600 * h2 + 60 * m2 + s2) mod 3600"
    then have "(3600 * h1 + 60 * m1 + s1) mod 3600 < (3600 * h2 + 60 * m2 + s2) mod 3600" by (rule conjunct2)
    from lex_divmod [OF this, of 60]
    have "m1 < m2 \<or> (m1 = m2 \<and> s1 < s2)"
      unfolding d1 d2 .
    with a show ?thesis by simp
  qed
qed

lemma clock_lex:
  fixes f1 f2 :: rat and h1 m1 s1 h2 m2 s2 :: nat
  assumes "m1 < 60" "s1 < 60" "0 \<le> f1" "f1 < 1" "m2 < 60" "s2 < 60" "0 \<le> f2" "f2 < 1"
    and le: "of_nat (3600 * h1 + 60 * m1 + s1) + f1 \<le> of_nat (3600 * h2 + 60 * m2 + s2) + f2"
  shows "h1 < h2 \<or> (h1 = h2 \<and> (m1 < m2 \<or> (m1 = m2 \<and> (s1 < s2 \<or> (s1 = s2 \<and> f1 \<le> f2)))))"
proof -
  define N1 where "N1 = 3600 * h1 + 60 * m1 + s1"
  define N2 where "N2 = 3600 * h2 + 60 * m2 + s2"
  have le': "of_nat N1 + f1 \<le> of_nat N2 + f2"
    using le unfolding N1_def N2_def .
  have "(of_nat N1 :: rat) < of_nat N2 + 1"
    using le' assms(3,8) by linarith
  then have "(of_nat N1 :: rat) < of_nat (N2 + 1)"
    by simp
  then have n: "N1 < N2 + 1"
    by (simp only: of_nat_less_iff)
  show ?thesis
  proof (cases "N1 = N2")
    case True
    then have f: "f1 \<le> f2" using le' by simp
    have "h1 = h2" "m1 = m2" "s1 = s2"
      using True clock_digits [OF assms(1,2), of h1] clock_digits [OF assms(5,6), of h2]
      unfolding N1_def N2_def by metis+
    with f show ?thesis by simp
  next
    case False
    then have "N1 < N2" using n by simp
    then show ?thesis
      using clock_lex_nat [OF assms(1,2,5,6)] unfolding N1_def N2_def by blast
  qed
qed


lemma stamp_le:
  fixes A1 A2 B1 B2 C1 C2 D1 D2 :: string
  assumes "length A1 = length A2" "length B1 = length B2" "length C1 = length C2"
    and "A1 < A2 \<or> (A1 = A2 \<and> (B1 < B2 \<or> (B1 = B2 \<and> (C1 < C2 \<or> (C1 = C2 \<and> D1 \<le> D2)))))"
  shows "A1 @ c # B1 @ d # C1 @ e # D1 \<le> A2 @ c # B2 @ d # C2 @ e # D2"
proof (rule field_le [OF assms(1)])
  have "C1 < C2 \<or> C1 = C2 \<and> D1 \<le> D2 \<Longrightarrow> C1 @ e # D1 \<le> C2 @ e # D2"
    by (rule field_le [OF assms(3)])
  then have "B1 < B2 \<or> (B1 = B2 \<and> (C1 < C2 \<or> (C1 = C2 \<and> D1 \<le> D2)))
    \<Longrightarrow> B1 @ d # C1 @ e # D1 \<le> B2 @ d # C2 @ e # D2"
    using field_le [OF assms(2), of "C1 @ e # D1" "C2 @ e # D2" d] by blast
  then show "A1 < A2 \<or> A1 = A2 \<and> B1 @ d # C1 @ e # D1 \<le> B2 @ d # C2 @ e # D2"
    using assms(4) by blast
qed

lemma scaled_fraction:
  fixes f :: rat and k :: nat
  assumes "0 \<le> f" "f < 1" "0 < k"
  obtains n where "n < k" "int_trunc (f * of_nat k) = int n" "n = nat \<lfloor>f * of_nat k\<rfloor>"
proof -
  have nn: "0 \<le> f * of_nat k" using assms by simp
  have "f * of_nat k < 1 * of_nat k"
    using assms by (intro mult_strict_right_mono) simp_all
  then have "\<lfloor>f * of_nat k\<rfloor> < int k"
    by (simp add: floor_less_iff)
  moreover have z: "0 \<le> \<lfloor>f * of_nat k\<rfloor>" using nn by simp
  ultimately have 1: "nat \<lfloor>f * of_nat k\<rfloor> < k" by linarith
  have 2: "int_trunc (f * of_nat k) = int (nat \<lfloor>f * of_nat k\<rfloor>)"
    using z nn by (simp add: int_trunc_nonneg)
  from that [OF 1 2] show ?thesis by simp
qed

lemma scaled_fraction_mono:
  fixes f g :: rat
  assumes "f \<le> g"
  shows "nat \<lfloor>f * of_nat k\<rfloor> \<le> nat \<lfloor>g * of_nat k\<rfloor>"
  using assms by (intro nat_mono floor_mono mult_right_mono) simp_all

text \<open>
  C5, as amended. Seconds are exact rationals. For \<open>0 \<le> s1 \<le> s2 < 86400\<close> the line-format
  timestamp of \<open>s1\<close> is at most that of \<open>s2\<close> in the order of strings. The event-format
  timestamp of \<open>s1\<close> is at most that of \<open>s2\<close> when both inputs are below 36000 seconds or
  both are at least 36000 seconds, that is, when the unpadded hour fields have the same
  width.
\<close>

theorem timestamps_monotone:
  assumes "0 \<le> s1" "s1 \<le> s2" "s2 < 86400"
  shows "format_time s1 \<le> format_time s2
     \<and> (s2 < 36000 \<or> 36000 \<le> s1 \<longrightarrow> format_time_ass s1 \<le> format_time_ass s2)"
proof -
  have b1: "0 \<le> s1" "s1 < 86400" and b2: "0 \<le> s2" "s2 < 86400"
    using assms by simp_all
  from clock_fields [OF b1] obtain h1 m1 c1 :: nat and f1 :: rat where
    r1: "h1 < 24" "m1 < 60" "c1 < 60" "0 \<le> f1" "f1 < 1"
      and x1: "s1 = of_nat (3600 * h1 + 60 * m1 + c1) + f1"
      and t1: "format_time s1 = fmt0 2 (int h1) @ CHR '':'' # fmt0 2 (int m1) @ CHR '':''
                 # fmt0 2 (int c1) @ CHR '','' # fmt0 3 (int_trunc (f1 * 1000))"
      and a1: "format_time_ass s1 = str_int (int h1) @ CHR '':'' # fmt0 2 (int m1) @ CHR '':''
                 # fmt0 2 (int c1) @ CHR ''.'' # fmt0 2 (int_trunc (f1 * 100))"
    by blast
  from clock_fields [OF b2] obtain h2 m2 c2 :: nat and f2 :: rat where
    r2: "h2 < 24" "m2 < 60" "c2 < 60" "0 \<le> f2" "f2 < 1"
      and x2: "s2 = of_nat (3600 * h2 + 60 * m2 + c2) + f2"
      and t2: "format_time s2 = fmt0 2 (int h2) @ CHR '':'' # fmt0 2 (int m2) @ CHR '':''
                 # fmt0 2 (int c2) @ CHR '','' # fmt0 3 (int_trunc (f2 * 1000))"
      and a2: "format_time_ass s2 = str_int (int h2) @ CHR '':'' # fmt0 2 (int m2) @ CHR '':''
                 # fmt0 2 (int c2) @ CHR ''.'' # fmt0 2 (int_trunc (f2 * 100))"
    by blast
  have lex: "h1 < h2 \<or> (h1 = h2 \<and> (m1 < m2 \<or> (m1 = m2 \<and> (c1 < c2 \<or> (c1 = c2 \<and> f1 \<le> f2)))))"
    using clock_lex [OF r1(2,3,4,5) r2(2,3,4,5)] assms(2) unfolding x1 x2 by blast
  from scaled_fraction [OF r1(4,5), of 1000, simplified] obtain ms1 where
    ms1: "ms1 < 1000" "int_trunc (f1 * 1000) = int ms1" "ms1 = nat \<lfloor>f1 * 1000\<rfloor>"
    by auto
  from scaled_fraction [OF r2(4,5), of 1000, simplified] obtain ms2 where
    ms2: "ms2 < 1000" "int_trunc (f2 * 1000) = int ms2" "ms2 = nat \<lfloor>f2 * 1000\<rfloor>"
    by auto
  from scaled_fraction [OF r1(4,5), of 100, simplified] obtain cs1 where
    cs1: "cs1 < 100" "int_trunc (f1 * 100) = int cs1" "cs1 = nat \<lfloor>f1 * 100\<rfloor>"
    by auto
  from scaled_fraction [OF r2(4,5), of 100, simplified] obtain cs2 where
    cs2: "cs2 < 100" "int_trunc (f2 * 100) = int cs2" "cs2 = nat \<lfloor>f2 * 100\<rfloor>"
    by auto
  have ms: "fmt0 3 (int ms1) \<le> fmt0 3 (int ms2)" if "f1 \<le> f2"
  proof -
    have "ms1 \<le> ms2"
      unfolding ms1(3) ms2(3) using scaled_fraction_mono [OF that, of 1000] by simp
    then show ?thesis using ms2(1) by (rule fmt0_3_le)
  qed
  have cs: "fmt0 2 (int cs1) \<le> fmt0 2 (int cs2)" if "f1 \<le> f2"
  proof -
    have "cs1 \<le> cs2"
      unfolding cs1(3) cs2(3) using scaled_fraction_mono [OF that, of 100] by simp
    then show ?thesis using cs2(1) by (rule fmt0_2_le)
  qed
  have w: "h1 < 100" "h2 < 100" "m1 < 100" "m2 < 100" "c1 < 100" "c2 < 100"
    using r1 r2 by simp_all
  have line: "format_time s1 \<le> format_time s2"
    unfolding t1 t2 ms1(2) ms2(2)
  proof (rule stamp_le)
    show "length (fmt0 2 (int h1)) = length (fmt0 2 (int h2))"
      "length (fmt0 2 (int m1)) = length (fmt0 2 (int m2))"
      "length (fmt0 2 (int c1)) = length (fmt0 2 (int c2))"
      using w by (simp_all add: length_fmt0_2)
    show "fmt0 2 (int h1) < fmt0 2 (int h2) \<or>
      fmt0 2 (int h1) = fmt0 2 (int h2) \<and>
      (fmt0 2 (int m1) < fmt0 2 (int m2) \<or>
       fmt0 2 (int m1) = fmt0 2 (int m2) \<and>
       (fmt0 2 (int c1) < fmt0 2 (int c2) \<or>
        fmt0 2 (int c1) = fmt0 2 (int c2) \<and> fmt0 3 (int ms1) \<le> fmt0 3 (int ms2)))"
      using lex ms fmt0_2_less [of h1 h2] fmt0_2_less [of m1 m2] fmt0_2_less [of c1 c2] w
      by blast
  qed
  have event: "format_time_ass s1 \<le> format_time_ass s2" if band: "s2 < 36000 \<or> 36000 \<le> s1"
  proof -
    have n1: "(of_nat (3600 * h1 + 60 * m1 + c1) :: rat) \<le> s1" "s1 < of_nat (3600 * h1 + 60 * m1 + c1 + 1)"
      using x1 r1(4,5) by simp_all
    have n2: "(of_nat (3600 * h2 + 60 * m2 + c2) :: rat) \<le> s2" "s2 < of_nat (3600 * h2 + 60 * m2 + c2 + 1)"
      using x2 r2(4,5) by simp_all
    have hle: "h1 \<le> h2" using lex by auto
    have hband: "h2 < 10 \<or> 10 \<le> h1"
    proof (rule disjE [OF band])
      assume "s2 < 36000"
      then have "(of_nat (3600 * h2 + 60 * m2 + c2) :: rat) < of_nat 36000"
        using n2(1) by simp
      then have "3600 * h2 + 60 * m2 + c2 < 36000"
        by (simp only: of_nat_less_iff)
      then show ?thesis by simp
    next
      assume "36000 \<le> s1"
      then have "(of_nat 36000 :: rat) < of_nat (3600 * h1 + 60 * m1 + c1 + 1)"
        using n1(2) by simp
      then have "36000 < 3600 * h1 + 60 * m1 + c1 + 1"
        by (simp only: of_nat_less_iff)
      then show ?thesis using r1(2,3) by simp
    qed
    have hlen: "length (str_int (int h1)) = length (str_int (int h2))"
      using hband hle w by (auto simp: length_str_int_1 length_str_int_2)
    have hless: "h1 < h2 \<Longrightarrow> str_int (int h1) < str_int (int h2)"
      using hband w str_int_1_less [of h1 h2] str_int_2_less [of h1 h2] by auto
    show ?thesis
      unfolding a1 a2 cs1(2) cs2(2)
    proof (rule stamp_le)
      show "length (str_int (int h1)) = length (str_int (int h2))" by (rule hlen)
      show "length (fmt0 2 (int m1)) = length (fmt0 2 (int m2))"
        "length (fmt0 2 (int c1)) = length (fmt0 2 (int c2))"
        using w by (simp_all add: length_fmt0_2)
      show "str_int (int h1) < str_int (int h2) \<or>
        str_int (int h1) = str_int (int h2) \<and>
        (fmt0 2 (int m1) < fmt0 2 (int m2) \<or>
         fmt0 2 (int m1) = fmt0 2 (int m2) \<and>
         (fmt0 2 (int c1) < fmt0 2 (int c2) \<or>
          fmt0 2 (int c1) = fmt0 2 (int c2) \<and> fmt0 2 (int cs1) \<le> fmt0 2 (int cs2)))"
        using lex cs hless fmt0_2_less [of m1 m2] fmt0_2_less [of c1 c2] w
        by blast
    qed
  qed
  from line event show ?thesis by blast
qed

theorem timestamps_monotone_witness:
  "format_time 35999 \<le> format_time 36000
   \<and> format_time_ass (7/2) \<le> format_time_ass 35999
   \<and> format_time_ass 36000 \<le> format_time_ass (86399 + 99/100)"
  using timestamps_monotone [of 35999 36000] timestamps_monotone [of "7/2" 35999]
    timestamps_monotone [of 36000 "86399 + 99/100"]
  by simp

text \<open>
  Across the ten-hour boundary the event format is not monotone in the order of strings:
  35999 seconds gives \<^verbatim>\<open>9:59:59.00\<close>, 36000 seconds gives \<^verbatim>\<open>10:00:00.00\<close>, and the first
  string is the greater one.
\<close>

theorem event_timestamp_not_monotone:
  "\<not> format_time_ass 35999 \<le> format_time_ass 36000"
  by code_simp


subsection \<open>C6: the path of the temporary subtitle file\<close>

text \<open>
  Replacing \<^verbatim>\<open>.mp4\<close> by a longer string makes a path that contains \<^verbatim>\<open>.mp4\<close> longer, and
  leaves any other path as it is.
\<close>

lemma take_eq_length: "take (length ys) xs = ys \<Longrightarrow> length ys \<le> length xs"
proof -
  assume "take (length ys) xs = ys"
  then have "length (take (length ys) xs) = length ys" by (rule arg_cong)
  then show ?thesis by simp
qed

lemma length_replace_ge:
  "length old \<le> length new \<Longrightarrow> length s \<le> length (replace old new s)"
proof (induction old new s rule: replace.induct)
  case (1 old new)
  then show ?case by simp
next
  case (2 old new c cs)
  show ?case
  proof (cases "old \<noteq> [] \<and> take (length old) (c # cs) = old")
    case True
    then have "length old \<le> length (c # cs)"
      by (intro take_eq_length) simp
    moreover have "length (drop (length old) (c # cs)) \<le> length (replace old new (drop (length old) (c # cs)))"
      using 2 True by simp
    ultimately have "length (c # cs) \<le> length new + length (replace old new (drop (length old) (c # cs)))"
      using 2(3) by simp
    then show ?thesis using True by simp
  next
    case False
    then have "length cs \<le> length (replace old new cs)" using 2 by simp
    then show ?thesis using False by auto
  qed
qed

lemma length_replace_gt:
  "length old < length new \<Longrightarrow> sublist old s \<Longrightarrow> old \<noteq> [] \<Longrightarrow>
   length s < length (replace old new s)"
proof (induction old new s rule: replace.induct)
  case (1 old new)
  then show ?case by simp
next
  case (2 old new c cs)
  show ?case
  proof (cases "take (length old) (c # cs) = old")
    case True
    then have "length old \<le> length (c # cs)"
      by (intro take_eq_length) simp
    moreover have "length (drop (length old) (c # cs)) \<le> length (replace old new (drop (length old) (c # cs)))"
      using 2(3) by (intro length_replace_ge) simp
    ultimately have "length (c # cs) < length new + length (replace old new (drop (length old) (c # cs)))"
      using 2(3) by simp
    then show ?thesis using True 2(5) by simp
  next
    case False
    then have "\<not> prefix old (c # cs)"
      by (metis append_eq_conv_conj prefix_def)
    then have "sublist old cs"
      using 2(4) by (simp add: sublist_Cons_right)
    then have "length cs < length (replace old new cs)" using 2 False by simp
    then show ?thesis using False by auto
  qed
qed

lemma sidecar_distinct_when_mp4:
  "sublist ''.mp4'' video_path \<Longrightarrow>
   ass_path_of video_path \<noteq> video_path \<and> srt_path_of video_path \<noteq> video_path"
  using length_replace_gt [of "''.mp4''" "''_temp.ass''" video_path]
    length_replace_gt [of "''.mp4''" "''_temp.srt''" video_path]
  by (auto simp: ass_path_of_def srt_path_of_def)

lemma replace_no_occurrence:
  "\<not> sublist old s \<Longrightarrow> replace old new s = s"
proof (induction old new s rule: replace.induct)
  case (1 old new)
  then show ?case by simp
next
  case (2 old new c cs)
  have "\<not> prefix old (c # cs)" "\<not> sublist old cs"
    using 2(3) by (simp_all add: sublist_Cons_right)
  then have "take (length old) (c # cs) \<noteq> old"
    by (metis take_is_prefix)
  then show ?case using 2 \<open>\<not> sublist old cs\<close> by simp
qed

text \<open>
  C6 says that the sidecar path differs from the input path for every input path. The
  path is \<^verbatim>\<open>video_path.replace(".mp4", ...)\<close>, which leaves a path without \<^verbatim>\<open>.mp4\<close> as
  it is. At the input \<^verbatim>\<open>clip.mov\<close> both sidecar paths are \<^verbatim>\<open>clip.mov\<close>: the subtitle text
  is written over the video, \<^verbatim>\<open>ffmpeg\<close> reads the subtitle text as its input, and the
  \<^verbatim>\<open>finally\<close> clause removes the file.
\<close>

theorem sidecar_path_equals_input:
  "ass_path_of ''clip.mov'' = ''clip.mov''
   \<and> srt_path_of ''clip.mov'' = ''clip.mov''
   \<and> snd (burn_subtitles sample_builtins copying_ffmpeg [''clip.mov'' \<mapsto> ''VIDEO'']
             ''clip.mov'' ''SUBTITLES'' ''out.mp4'' None)
       = [''out.mp4'' \<mapsto> ''SUBTITLES'']"
proof (intro conjI)
  show "ass_path_of ''clip.mov'' = ''clip.mov''"
    by (simp add: ass_path_of_def)
  show "srt_path_of ''clip.mov'' = ''clip.mov''"
    by (simp add: srt_path_of_def)
  show "snd (burn_subtitles sample_builtins copying_ffmpeg [''clip.mov'' \<mapsto> ''VIDEO'']
             ''clip.mov'' ''SUBTITLES'' ''out.mp4'' None)
       = [''out.mp4'' \<mapsto> ''SUBTITLES'']"
    by (simp add: burn_subtitles_def burn_default_settings_def use_ass_def dict_get_def
        dict_get1_def burn_ass_def ass_path_of_def Let_def run_checked_def copying_ffmpeg_def
        ffmpeg_cmd_def escape_path_def)
qed


subsection \<open>C7: the probes absorb every failure\<close>

text \<open>
  What the two probes return, for every outcome of the child process. Neither raises.
  \<^verbatim>\<open>video_has_audio\<close> returns \<^verbatim>\<open>False\<close> when the process cannot be run; when it completes,
  it returns whether its stripped output is \<^verbatim>\<open>audio\<close>, whatever the exit status.
  \<^verbatim>\<open>get_video_duration\<close> returns 5.0 when the process cannot be run, when it exits with a
  non-zero status, and when its output does not parse as a float.
\<close>

lemma probes_absorb_failures:
  "video_has_audio proc video_path =
     Inr (case proc (audio_probe_cmd video_path) of
            Inl e \<Rightarrow> False
          | Inr r \<Rightarrow> strip (stdout r) = ''audio'')
   \<and> get_video_duration py proc video_path =
     Inr (case proc (duration_probe_cmd video_path) of
            Inl e \<Rightarrow> Finite 5
          | Inr r \<Rightarrow>
              if returncode r \<noteq> 0 then Finite 5
              else (case float_of_str py (strip (stdout r)) of
                      None \<Rightarrow> Finite 5
                    | Some duration \<Rightarrow> duration))"
  by (auto simp: video_has_audio_def get_video_duration_def try_except_def subprocess_run_def
      split: sum.splits option.splits)

lemma probes_absorb_failures_examples:
  "video_has_audio failing_probe ''a.mp4'' = Inr False
   \<and> get_video_duration sample_builtins failing_probe ''a.mp4'' = Inr (Finite 5)
   \<and> video_has_audio (\<lambda>cmd. Inl OSError) ''a.mp4'' = Inr False
   \<and> get_video_duration sample_builtins (\<lambda>cmd. Inl OSError) ''a.mp4'' = Inr (Finite 5)
   \<and> get_video_duration sample_builtins (\<lambda>cmd. Inr (CompletedProcess 0 ''N/A'' [])) ''a.mp4''
       = Inr (Finite 5)
   \<and> get_video_duration sample_builtins (\<lambda>cmd. Inr (CompletedProcess 0 (''12.5'' @ NL) [])) ''a.mp4''
       = Inr (Finite (25/2))"
  using
    probes_absorb_failures [of failing_probe "''a.mp4''" sample_builtins]
    probes_absorb_failures [of "\<lambda>cmd. Inl OSError" "''a.mp4''" sample_builtins]
    probes_absorb_failures [of "\<lambda>cmd. Inr (CompletedProcess 0 ''N/A'' [])" "''a.mp4''" sample_builtins]
    probes_absorb_failures [of "\<lambda>cmd. Inr (CompletedProcess 0 (''12.5'' @ NL) [])" "''a.mp4''" sample_builtins]
  by (simp add: failing_probe_def strip_def isspace_def sample_builtins_def NL_def)

text \<open>
  C7 says that the audio probe returns \<^verbatim>\<open>False\<close> on failure, a failing external process
  included. \<^verbatim>\<open>video_has_audio\<close> calls \<^verbatim>\<open>subprocess.run\<close> without \<^verbatim>\<open>check=True\<close> and never
  reads the exit status: for a process that exits with status 1 after printing \<^verbatim>\<open>audio\<close> it
  returns \<^verbatim>\<open>True\<close>. \<^verbatim>\<open>get_video_duration\<close>, which passes \<^verbatim>\<open>check=True\<close>, falls back to 5.0
  on the same process, and also when that process prints a duration that parses.
\<close>

theorem audio_probe_ignores_exit_status:
  "video_has_audio (\<lambda>cmd. Inr (CompletedProcess 1 (''audio'' @ NL) ''error'')) ''a.mp4''
     = Inr True
   \<and> get_video_duration sample_builtins
         (\<lambda>cmd. Inr (CompletedProcess 1 (''audio'' @ NL) ''error'')) ''a.mp4''
     = Inr (Finite 5)
   \<and> get_video_duration sample_builtins
         (\<lambda>cmd. Inr (CompletedProcess 1 (''12.5'' @ NL) ''error'')) ''a.mp4''
     = Inr (Finite 5)"
  by (simp add: video_has_audio_def get_video_duration_def try_except_def subprocess_run_def
      strip_def isspace_def NL_def)

subsection \<open>C8: the model cache has one slot\<close>

lemma load_hit:
  "whisper_model_cache st = Some m \<Longrightarrow> whisper_model_size st = Some sz \<Longrightarrow>
   load_whisper_model load_model sz st = (Inr (Some m), st)"
  by (simp add: load_whisper_model_def)

lemma load_miss:
  "whisper_model_cache st = None \<or> whisper_model_size st \<noteq> Some sz \<Longrightarrow> load_model sz = Inr m \<Longrightarrow>
   load_whisper_model load_model sz st =
     (Inr (Some m), st\<lparr>whisper_model_cache := Some m, whisper_model_size := Some sz,
                       load_calls := load_calls st @ [sz]\<rparr>)"
  by (auto simp add: load_whisper_model_def Let_def)

text \<open>
  The calls to the loader that a sequence of requests adds: the sequence without its
  adjacent repetitions, and without its head when the slot holds the head's model.
\<close>

lemma load_requests_calls:
  "\<forall>s \<in> set reqs. load_model s = Inr (f s) \<Longrightarrow>
   load_calls (snd (load_requests load_model reqs st)) =
     load_calls st @ (case slot st of None \<Rightarrow> remdups_adj reqs
                      | Some s \<Rightarrow> tl (remdups_adj (s # reqs)))"
proof (induction reqs arbitrary: st)
  case Nil
  then show ?case by (simp add: slot_def split: option.splits)
next
  case (Cons r reqs)
  show ?case
  proof (cases "whisper_model_cache st = None \<or> whisper_model_size st \<noteq> Some r")
    case True
    have l: "load_model r = Inr (f r)" using Cons.prems by simp
    let ?st1 = "st\<lparr>whisper_model_cache := Some (f r), whisper_model_size := Some r,
                       load_calls := load_calls st @ [r]\<rparr>"
    have s1: "slot ?st1 = Some r" by (simp add: slot_def)
    have ih: "load_calls (snd (load_requests load_model reqs ?st1)) =
       load_calls ?st1 @ tl (remdups_adj (r # reqs))"
      using Cons.IH [of ?st1] Cons.prems s1 by simp
    have ne: "slot st \<noteq> Some r" using True by (auto simp: slot_def)
    show ?thesis
      using ih ne
      by (auto simp: load_miss [where load_model=load_model and m="f r", OF True l]
          split: prod.splits option.splits)
  next
    case False
    then obtain m where m: "whisper_model_cache st = Some m" "whisper_model_size st = Some r"
      by auto
    have s: "slot st = Some r" using m by (simp add: slot_def)
    have ih: "load_calls (snd (load_requests load_model reqs st)) =
       load_calls st @ tl (remdups_adj (r # reqs))"
      using Cons.IH [of st] Cons.prems s by simp
    show ?thesis using ih s by (auto simp: load_hit [OF m] split: prod.splits)
  qed
qed

lemma load_requests_results:
  "\<forall>s \<in> set reqs. load_model s = Inr (f s) \<Longrightarrow>
   whisper_model_cache st \<noteq> None \<longrightarrow>
     (\<exists>s. whisper_model_size st = Some s \<and> whisper_model_cache st = Some (f s)) \<Longrightarrow>
   fst (load_requests load_model reqs st) = map (\<lambda>s. Inr (Some (f s))) reqs
   \<and> (reqs \<noteq> [] \<longrightarrow>
        whisper_model_size (snd (load_requests load_model reqs st)) = Some (last reqs)
        \<and> whisper_model_cache (snd (load_requests load_model reqs st)) = Some (f (last reqs)))"
proof (induction reqs arbitrary: st)
  case Nil
  then show ?case by simp
next
  case (Cons r reqs)
  have l: "load_model r = Inr (f r)" using Cons.prems by simp
  obtain res st1 where st1: "load_whisper_model load_model r st = (res, st1)"
    by (cases "load_whisper_model load_model r st")
  have p: "res = Inr (Some (f r)) \<and> whisper_model_size st1 = Some r
           \<and> whisper_model_cache st1 = Some (f r)"
  proof (cases "whisper_model_cache st = None \<or> whisper_model_size st \<noteq> Some r")
    case True
    show ?thesis using st1 load_miss [where load_model=load_model and m="f r", OF True l] by auto
  next
    case False
    then obtain m where m: "whisper_model_cache st = Some m" "whisper_model_size st = Some r"
      by auto
    with Cons.prems(2) have "m = f r" by auto
    then show ?thesis using st1 load_hit [OF m, of load_model] m by auto
  qed
  have ih: "fst (load_requests load_model reqs st1) = map (\<lambda>s. Inr (Some (f s))) reqs
   \<and> (reqs \<noteq> [] \<longrightarrow>
        whisper_model_size (snd (load_requests load_model reqs st1)) = Some (last reqs)
        \<and> whisper_model_cache (snd (load_requests load_model reqs st1)) = Some (f (last reqs)))"
    using Cons.IH [of st1] Cons.prems p by auto
  show ?case using ih p st1 by (auto split: prod.splits)
qed

text \<open>
  C8. Requests are made one after the other.
  \<^item> A request for the size the slot holds calls the loader not at all and returns the
    cached model; the state, the record of loader calls included, is unchanged.
  \<^item> A request for another size (or on an empty cache) whose load succeeds calls the loader
    once and puts the new model and size in the slot; a second request for the same size
    right after it adds no call: two requests, one load.
  \<^item> For every sequence of requests from the empty cache whose loads succeed, every request
    returns the model of its size, the loader calls are the sequence without its adjacent
    repetitions, and the slot holds the size requested last.
\<close>

theorem model_cache_single_slot:
  "(whisper_model_cache st = Some m \<and> whisper_model_size st = Some sz \<longrightarrow>
      load_whisper_model load_model sz st = (Inr (Some m), st))
   \<and> ((whisper_model_cache st' = None \<or> whisper_model_size st' \<noteq> Some sz')
        \<and> load_model sz' = Inr m' \<longrightarrow>
      load_whisper_model load_model sz' st' =
        (Inr (Some m'), st'\<lparr>whisper_model_cache := Some m', whisper_model_size := Some sz',
                            load_calls := load_calls st' @ [sz']\<rparr>)
      \<and> load_requests load_model [sz', sz'] st' =
        ([Inr (Some m'), Inr (Some m')],
         st'\<lparr>whisper_model_cache := Some m', whisper_model_size := Some sz',
             load_calls := load_calls st' @ [sz']\<rparr>))
   \<and> ((\<forall>s \<in> set reqs. load_model s = Inr (f s)) \<longrightarrow>
      fst (load_requests load_model reqs initial_cache) = map (\<lambda>s. Inr (Some (f s))) reqs
      \<and> load_calls (snd (load_requests load_model reqs initial_cache)) = remdups_adj reqs
      \<and> (reqs \<noteq> [] \<longrightarrow>
           whisper_model_size (snd (load_requests load_model reqs initial_cache)) = Some (last reqs)
           \<and> whisper_model_cache (snd (load_requests load_model reqs initial_cache))
               = Some (f (last reqs))))"
proof (intro conjI impI)
  assume "whisper_model_cache st = Some m \<and> whisper_model_size st = Some sz"
  then show "load_whisper_model load_model sz st = (Inr (Some m), st)"
    by (simp add: load_hit)
next
  assume a: "(whisper_model_cache st' = None \<or> whisper_model_size st' \<noteq> Some sz')
             \<and> load_model sz' = Inr m'"
  then show "load_whisper_model load_model sz' st' =
        (Inr (Some m'), st'\<lparr>whisper_model_cache := Some m', whisper_model_size := Some sz',
                            load_calls := load_calls st' @ [sz']\<rparr>)"
    by (simp add: load_miss)
  from a show "load_requests load_model [sz', sz'] st' =
        ([Inr (Some m'), Inr (Some m')],
         st'\<lparr>whisper_model_cache := Some m', whisper_model_size := Some sz',
             load_calls := load_calls st' @ [sz']\<rparr>)"
    by (simp add: load_miss load_hit)
next
  assume a: "\<forall>s \<in> set reqs. load_model s = Inr (f s)"
  have i: "whisper_model_cache (initial_cache :: 'a model_cache) \<noteq> None \<longrightarrow>
     (\<exists>s. whisper_model_size (initial_cache :: 'a model_cache) = Some s
        \<and> whisper_model_cache (initial_cache :: 'a model_cache) = Some (f s))"
    by (simp add: initial_cache_def)
  from load_requests_results [OF a i]
  show "fst (load_requests load_model reqs initial_cache) = map (\<lambda>s. Inr (Some (f s))) reqs"
    and "reqs \<noteq> [] \<Longrightarrow>
      whisper_model_size (snd (load_requests load_model reqs initial_cache)) = Some (last reqs)"
    and "reqs \<noteq> [] \<Longrightarrow>
      whisper_model_cache (snd (load_requests load_model reqs initial_cache))
        = Some (f (last reqs))"
    by simp_all
  show "load_calls (snd (load_requests load_model reqs initial_cache)) = remdups_adj reqs"
    using load_requests_calls [OF a, of initial_cache]
    by (simp add: slot_def initial_cache_def)
qed

theorem model_cache_single_slot_witness:
  "load_whisper_model (\<lambda>s. Inr (length s)) ''base''
       \<lparr>whisper_model_cache = Some 4, whisper_model_size = Some ''base'', load_calls = [''base'']\<rparr>
     = (Inr (Some 4),
        \<lparr>whisper_model_cache = Some 4, whisper_model_size = Some ''base'', load_calls = [''base'']\<rparr>)
   \<and> load_requests (\<lambda>s. Inr (length s)) [''tiny'', ''tiny'']
       \<lparr>whisper_model_cache = Some 4, whisper_model_size = Some ''base'', load_calls = [''base'']\<rparr>
     = ([Inr (Some 4), Inr (Some 4)],
        \<lparr>whisper_model_cache = Some 4, whisper_model_size = Some ''tiny'',
         load_calls = [''base'', ''tiny'']\<rparr>)
   \<and> load_calls (snd (load_requests (\<lambda>s. Inr (length s))
                         [''base'', ''base'', ''tiny'', ''base''] initial_cache))
     = [''base'', ''tiny'', ''base'']
   \<and> whisper_model_size (snd (load_requests (\<lambda>s. Inr (length s))
                         [''base'', ''base'', ''tiny'', ''base''] initial_cache))
     = Some ''base''"
  using model_cache_single_slot
    [of "\<lparr>whisper_model_cache = Some 4, whisper_model_size = Some ''base'', load_calls = [''base'']\<rparr>"
        4 "''base''" "\<lambda>s. Inr (length s)"
        "\<lparr>whisper_model_cache = Some 4, whisper_model_size = Some ''base'', load_calls = [''base'']\<rparr>"
        "''tiny''" 4 "[''base'', ''base'', ''tiny'', ''base'']" length]
  by (simp add: load_whisper_model_def initial_cache_def Let_def)


subsection \<open>C9: the empty segment list\<close>

text \<open>
  C9. On the empty segment list both serializers return without an exception.
  \<^verbatim>\<open>write_srt\<close> returns the empty string. \<^verbatim>\<open>write_ass\<close> returns the header and nothing
  after it: with the default settings it is the fixed text below; with a settings
  dictionary whose colour entries, where present, are strings, it is the header built from
  that dictionary.
\<close>

theorem empty_segment_list_serializes:
  "write_srt [] max_words = Inr []
   \<and> write_ass py [] max_words None =
       Inr (concat (map (\<lambda>l. l @ NL)
         [''[Script Info]'',
          ''Title: Subtitles'',
          ''ScriptType: v4.00+'',
          ''WrapStyle: 0'',
          ''PlayResX: 1080'',
          ''PlayResY: 1920'',
          ''ScaledBorderAndShadow: yes'',
          [],
          ''[V4+ Styles]'',
          ''Format: Name, Fontname, Fontsize, PrimaryColour, SecondaryColour, OutlineColour, BackColour, Bold, Italic, Underline, StrikeOut, ScaleX, ScaleY, Spacing, Angle, BorderStyle, Outline, Shadow, Alignment, MarginL, MarginR, MarginV, Encoding'',
          ''Style: Default,Arial Black,32,&H00FFFFFF,&H000000FF,&H00000000,&H00000000,-1,0,0,0,100,100,0,0,3,3,2,2,40,40,960,1'',
          [],
          ''[Events]'',
          ''Format: Layer, Start, End, Style, Name, MarginL, MarginR, MarginV, Effect, Text'']))
   \<and> ((\<forall>k \<in> {''primary-color'', ''highlight-color'', ''outline-color''}.
          \<forall>v. settings k = Some v \<longrightarrow> (\<exists>s. v = VStr s))
        \<longrightarrow> (\<exists>primary_color outline_color.
              hex_to_ass_color (dict_get settings ''primary-color'' (VStr ''#FFFFFF'')) ''00''
                = Inr primary_color
              \<and> hex_to_ass_color (dict_get settings ''outline-color'' (VStr ''#000000'')) ''00''
                = Inr outline_color
              \<and> write_ass py [] max_words (Some settings)
                = Inr (ass_header py settings primary_color outline_color)))"
proof (intro conjI impI)
  show "write_srt [] max_words = Inr []"
    by (simp add: write_srt_def)
next
  show "write_ass py [] max_words None = Inr (concat (map (\<lambda>l. l @ NL)
         [''[Script Info]'',
          ''Title: Subtitles'',
          ''ScriptType: v4.00+'',
          ''WrapStyle: 0'',
          ''PlayResX: 1080'',
          ''PlayResY: 1920'',
          ''ScaledBorderAndShadow: yes'',
          [],
          ''[V4+ Styles]'',
          ''Format: Name, Fontname, Fontsize, PrimaryColour, SecondaryColour, OutlineColour, BackColour, Bold, Italic, Underline, StrikeOut, ScaleX, ScaleY, Spacing, Angle, BorderStyle, Outline, Shadow, Alignment, MarginL, MarginR, MarginV, Encoding'',
          ''Style: Default,Arial Black,32,&H00FFFFFF,&H000000FF,&H00000000,&H00000000,-1,0,0,0,100,100,0,0,3,3,2,2,40,40,960,1'',
          [],
          ''[Events]'',
          ''Format: Layer, Start, End, Style, Name, MarginL, MarginR, MarginV, Effect, Text'']))"
    by (simp add: write_ass_def write_ass_default_settings_def hex_to_ass_color_def
        dict_get_def dict_get1_def lstrip_char_def slice_def ass_header_def ass_style_line_def
        str_int_samples)
next
  assume h: "\<forall>k \<in> {''primary-color'', ''highlight-color'', ''outline-color''}.
          \<forall>v. settings k = Some v \<longrightarrow> (\<exists>s. v = VStr s)"
  have str: "\<exists>s. dict_get settings k (VStr d) = VStr s"
    if "k \<in> {''primary-color'', ''highlight-color'', ''outline-color''}" for k d
    using h that by (cases "settings k") (auto simp: dict_get_def)
  obtain p where p: "dict_get settings ''primary-color'' (VStr ''#FFFFFF'') = VStr p"
    using str by blast
  obtain hc where hc: "dict_get settings ''highlight-color'' (VStr ''#FFFF00'') = VStr hc"
    using str by blast
  obtain oc where oc: "dict_get settings ''outline-color'' (VStr ''#000000'') = VStr oc"
    using str by blast
  show "\<exists>primary_color outline_color.
              hex_to_ass_color (dict_get settings ''primary-color'' (VStr ''#FFFFFF'')) ''00''
                = Inr primary_color
              \<and> hex_to_ass_color (dict_get settings ''outline-color'' (VStr ''#000000'')) ''00''
                = Inr outline_color
              \<and> write_ass py [] max_words (Some settings)
                = Inr (ass_header py settings primary_color outline_color)"
    by (simp add: write_ass_def hex_to_ass_color_def p hc oc Let_def)
qed

theorem empty_segment_list_serializes_witness:
  "write_srt [] 3 = Inr []
   \<and> write_ass sample_builtins [] 3 (Some [''primary-color'' \<mapsto> VStr ''#00FF00''])
       = Inr (ass_header sample_builtins [''primary-color'' \<mapsto> VStr ''#00FF00'']
                ''&H0000FF00'' ''&H00000000'')"
  using empty_segment_list_serializes
    [of 3 sample_builtins "[''primary-color'' \<mapsto> VStr ''#00FF00'']"]
  by (simp add: hex_to_ass_color_def dict_get_def lstrip_char_def slice_def)


subsection \<open>C10: the line-format branch is always bold\<close>

lemma subtitle_filter_shape:
  assumes "subtitle_filter py settings p = Inr f"
  shows "\<exists>a b. f = a @ ''Bold=1,'' @ b"
proof -
  from assms obtain pc oc sc y where
    "f = ''subtitles='' @ p @ '':force_style='' @ [CHR 0x27]
               @ ''FontName='' @ py_str py (dict_get settings ''font-family'' (VStr ''Montserrat-Bold'')) @ '',''
               @ ''FontSize='' @ py_str py (dict_get settings ''font-size'' (VInt 10)) @ '',''
               @ ''Bold=1,''
               @ ''PrimaryColour='' @ pc @ '',''
               @ ''OutlineColour='' @ oc @ '',''
               @ ''BackColour='' @ sc @ '',''
               @ ''BorderStyle=1,''
               @ ''Outline='' @ py_str py (dict_get settings ''outline-width'' (VFloat (Finite (1/2)))) @ '',''
               @ ''Shadow='' @ py_str py (dict_get settings ''shadow-offset'' (VFloat (Finite (3/10)))) @ '',''
               @ ''Alignment=2,''
               @ ''MarginV='' @ str_int y @ [CHR 0x27]"
    by (auto simp: subtitle_filter_def split: sum.splits)
  then have "f = (''subtitles='' @ p @ '':force_style='' @ [CHR 0x27]
               @ ''FontName='' @ py_str py (dict_get settings ''font-family'' (VStr ''Montserrat-Bold'')) @ '',''
               @ ''FontSize='' @ py_str py (dict_get settings ''font-size'' (VInt 10)) @ '','')
               @ ''Bold=1,''
               @ (''PrimaryColour='' @ pc @ '',''
               @ ''OutlineColour='' @ oc @ '',''
               @ ''BackColour='' @ sc @ '',''
               @ ''BorderStyle=1,''
               @ ''Outline='' @ py_str py (dict_get settings ''outline-width'' (VFloat (Finite (1/2)))) @ '',''
               @ ''Shadow='' @ py_str py (dict_get settings ''shadow-offset'' (VFloat (Finite (3/10)))) @ '',''
               @ ''Alignment=2,''
               @ ''MarginV='' @ str_int y @ [CHR 0x27])"
    by simp
  then show ?thesis by blast
qed

text \<open>
  C10. Whenever the line-format branch builds its filter string, the string contains
  \<^verbatim>\<open>Bold=1\<close>, and the \<^verbatim>\<open>bold\<close> entry of the settings has no effect on the branch: with
  any value for it, or without it, \<^verbatim>\<open>subtitle_filter\<close> gives the same result. In the styled
  branch the entry has an effect: the headers for \<^verbatim>\<open>bold\<close> true and false differ.
\<close>

theorem line_path_bold_is_unconditional:
  "(subtitle_filter py settings p = Inr f \<longrightarrow> sublist ''Bold=1'' f)
   \<and> subtitle_filter py (settings(''bold'' := b)) p = subtitle_filter py settings p
   \<and> ass_header py (settings(''bold'' \<mapsto> VBool True)) primary_color outline_color
       \<noteq> ass_header py (settings(''bold'' \<mapsto> VBool False)) primary_color outline_color"
proof (intro conjI impI)
  assume "subtitle_filter py settings p = Inr f"
  then obtain a c where "f = a @ ''Bold=1,'' @ c"
    using subtitle_filter_shape by blast
  then have "f = a @ ''Bold=1'' @ ('','' @ c)" by simp
  then show "sublist ''Bold=1'' f"
    unfolding sublist_def by blast
next
  show "subtitle_filter py (settings(''bold'' := b)) p = subtitle_filter py settings p"
    by (simp add: subtitle_filter_def dict_get_upd_other cong: sum.case_cong)
next
  show "ass_header py (settings(''bold'' \<mapsto> VBool True)) primary_color outline_color
       \<noteq> ass_header py (settings(''bold'' \<mapsto> VBool False)) primary_color outline_color"
    by (simp add: ass_header_def ass_style_line_def dict_get_upd_other dict_get_upd_same dict_get1_def)
qed

theorem line_path_bold_is_unconditional_witness:
  "subtitle_filter sample_builtins [''bold'' \<mapsto> VBool False] ''x_temp.srt'' =
     Inr (''subtitles=x_temp.srt:force_style='' @ [CHR 0x27]
          @ ''FontName=Montserrat-Bold,FontSize=10,Bold=1,PrimaryColour=&H00FFFFFF,OutlineColour=&H00000000,BackColour=&H00000000,BorderStyle=1,Outline=0.5,Shadow=0.3,Alignment=2,MarginV=50''
          @ [CHR 0x27])
   \<and> sublist ''Bold=1'' (''subtitles=x_temp.srt:force_style='' @ [CHR 0x27]
          @ ''FontName=Montserrat-Bold,FontSize=10,Bold=1,PrimaryColour=&H00FFFFFF,OutlineColour=&H00000000,BackColour=&H00000000,BorderStyle=1,Outline=0.5,Shadow=0.3,Alignment=2,MarginV=50''
          @ [CHR 0x27])"
proof -
  have h: "subtitle_filter sample_builtins [''bold'' \<mapsto> VBool False] ''x_temp.srt'' =
     Inr (''subtitles=x_temp.srt:force_style='' @ [CHR 0x27]
          @ ''FontName=Montserrat-Bold,FontSize=10,Bold=1,PrimaryColour=&H00FFFFFF,OutlineColour=&H00000000,BackColour=&H00000000,BorderStyle=1,Outline=0.5,Shadow=0.3,Alignment=2,MarginV=50''
          @ [CHR 0x27])"
    by (simp add: subtitle_filter_def hex_to_ass_color_srt_def dict_get_def lstrip_char_def
        slice_def sample_builtins_def str_int_samples)
  from line_path_bold_is_unconditional [of sample_builtins "[''bold'' \<mapsto> VBool False]" "''x_temp.srt''"] h
  show ?thesis by blast
qed


end
